theory Spec2Isabelle
  imports Complex_Main
begin

section \<open>Conventions of the embedding\<close>

text \<open>
  The development embeds \<^verbatim>\<open>src/services/excelService.ts\<close>.

  \<^item> A JavaScript number is a \<^typ>\<open>real\<close>: the finite doubles, with rounding error and
    overflow left out. \<^verbatim>\<open>NaN\<close> appears only where the source tests for it, as the
    absence of a value (\<open>None\<close>); the infinite values are not modelled.
  \<^item> A JavaScript string is a \<^typ>\<open>string\<close> whose characters are the code units
    \<open>U+0000\<close> to \<open>U+00FF\<close>; the degree glyph is the code unit \<open>0xB0\<close>.
  \<^item> \<^verbatim>\<open>Math.random()\<close> is a sequence of draws \<open>rnd :: nat \<Rightarrow> real\<close> with the index of
    the next draw passed along; the source's contract \<open>0 \<le> r < 1\<close> is a hypothesis
    where a property needs it.
  \<^item> A raise of the source is the \<open>Inl\<close> branch of a sum: \<open>NoDataError\<close> is the
    \<^verbatim>\<open>Error\<close> thrown by \<^verbatim>\<open>processExcelBuffer\<close>, \<open>RangeError\<close> the one of \<^verbatim>\<open>toFixed\<close>.
    \<open>NaNResult\<close> is not a raise: it marks a computation whose result would be
    \<^verbatim>\<open>NaN\<close>, which the numbers of the model cannot hold.
\<close>

datatype error = NoDataError | RangeError | NaNResult

definition bindE :: "error + 'a \<Rightarrow> ('a \<Rightarrow> error + 'b) \<Rightarrow> error + 'b" where
  "bindE m f = (case m of Inl e \<Rightarrow> Inl e | Inr x \<Rightarrow> f x)"

section \<open>Characters and strings of the JavaScript library\<close>

definition degreeGlyph :: char where
  "degreeGlyph = CHR 0xB0"

definition minuteMark :: char where
  "minuteMark = CHR 0x27"

text \<open>The class \<^verbatim>\<open>\d\<close> and the decimal digits of \<^verbatim>\<open>parseInt\<close> and \<^verbatim>\<open>parseFloat\<close>.\<close>

definition isDigit :: "char \<Rightarrow> bool" where
  "isDigit c = (48 \<le> (of_char c :: nat) \<and> (of_char c :: nat) \<le> 57)"

text \<open>The class \<^verbatim>\<open>\s\<close>, which is also what \<^verbatim>\<open>trim\<close> and \<^verbatim>\<open>parseFloat\<close> strip: tab, line
  feed, vertical tab, form feed, carriage return, space and no-break space.\<close>

definition isWhiteSpace :: "char \<Rightarrow> bool" where
  "isWhiteSpace c = ((of_char c :: nat) \<in> set [9, 10, 11, 12, 13, 32, 160])"

definition digitVal :: "char \<Rightarrow> nat" where
  "digitVal c = of_char c - 48"

definition digitChar :: "nat \<Rightarrow> char" where
  "digitChar n = char_of (48 + n)"

definition digitsValue :: "string \<Rightarrow> nat" where
  "digitsValue ds = foldl (\<lambda>a c. 10 * a + digitVal c) 0 ds"

text \<open>\<^verbatim>\<open>toString\<close> of an integral number, in decimal. (From \<open>10\<^sup>2\<^sup>1\<close> on JavaScript
  writes an exponent; the model writes the digits.)\<close>

fun natToString :: "nat \<Rightarrow> string" where
  "natToString n =
     (if n < 10 then [digitChar n] else natToString (n div 10) @ [digitChar (n mod 10)])"

declare natToString.simps [simp del]

definition intToString :: "int \<Rightarrow> string" where
  "intToString i = (if i < 0 then CHR ''-'' # natToString (nat (- i)) else natToString (nat i))"

definition padStart :: "nat \<Rightarrow> char \<Rightarrow> string \<Rightarrow> string" where
  "padStart targetLength c s = replicate (targetLength - length s) c @ s"

definition trim :: "string \<Rightarrow> string" where
  "trim s = rev (dropWhile isWhiteSpace (rev (dropWhile isWhiteSpace s)))"

text \<open>\<^verbatim>\<open>s.replace(a, b)\<close> with a one-character string pattern: the first occurrence only.\<close>

fun replaceFirst :: "char \<Rightarrow> char \<Rightarrow> string \<Rightarrow> string" where
  "replaceFirst a b [] = []"
| "replaceFirst a b (c # cs) = (if c = a then b # cs else c # replaceFirst a b cs)"

text \<open>\<^verbatim>\<open>toLowerCase\<close> on the code units below \<open>0x100\<close>: the letters A to Z and the
  accented capitals \<open>0xC0\<close> to \<open>0xDE\<close> without the multiplication sign \<open>0xD7\<close>.\<close>

definition lowerChar :: "char \<Rightarrow> char" where
  "lowerChar c =
     (let n = (of_char c :: nat)
      in if (65 \<le> n \<and> n \<le> 90) \<or> (192 \<le> n \<and> n \<le> 222 \<and> n \<noteq> 215) then char_of (n + 32) else c)"

definition toLowerCase :: "string \<Rightarrow> string" where
  "toLowerCase s = map lowerChar s"

definition startsWith :: "string \<Rightarrow> string \<Rightarrow> bool" where
  "startsWith s p = (take (length p) s = p)"

text \<open>\<^verbatim>\<open>parseInt(s, 10)\<close>: leading white space, a sign, then the longest run of digits;
  \<^verbatim>\<open>NaN\<close> (here \<open>None\<close>) when there is no digit.\<close>

definition parseInt10 :: "string \<Rightarrow> int option" where
  "parseInt10 s =
     (let t = dropWhile isWhiteSpace s;
          neg = (t \<noteq> [] \<and> hd t = CHR ''-'');
          u = (if t \<noteq> [] \<and> (hd t = CHR ''-'' \<or> hd t = CHR ''+'') then tl t else t);
          ds = takeWhile isDigit u
      in if ds = [] then None
         else Some (if neg then - int (digitsValue ds) else int (digitsValue ds)))"

text \<open>Powers of ten with an integer exponent, for \<^verbatim>\<open>Math.pow(10, e)\<close> and exponent parts.\<close>

definition pow10 :: "int \<Rightarrow> real" where
  "pow10 e = (if 0 \<le> e then 10 ^ nat e else 1 / 10 ^ nat (- e))"

text \<open>The exponent part of a decimal literal: \<^verbatim>\<open>e\<close> or \<^verbatim>\<open>E\<close>, a sign, at least one digit.
  A text that does not start with a complete exponent part contributes the exponent 0.\<close>

definition exponentPart :: "string \<Rightarrow> int" where
  "exponentPart r =
     (case r of
        [] \<Rightarrow> 0
      | c # r1 \<Rightarrow>
          if c = CHR ''e'' \<or> c = CHR ''E'' then
            (let neg = (r1 \<noteq> [] \<and> hd r1 = CHR ''-'');
                 r2 = (if r1 \<noteq> [] \<and> (hd r1 = CHR ''-'' \<or> hd r1 = CHR ''+'') then tl r1 else r1);
                 ds = takeWhile isDigit r2
             in if ds = [] then 0
                else if neg then - int (digitsValue ds) else int (digitsValue ds))
          else 0)"

text \<open>\<^verbatim>\<open>parseFloat\<close>: leading white space is skipped, then the longest prefix that is a
  decimal literal is read (sign, integer digits, fraction, exponent part); \<open>None\<close> is
  \<^verbatim>\<open>NaN\<close>. The literal \<^verbatim>\<open>Infinity\<close> has no real value and reads as no number.\<close>

definition parseFloat :: "string \<Rightarrow> real option" where
  "parseFloat s =
     (let t = dropWhile isWhiteSpace s;
          neg = (t \<noteq> [] \<and> hd t = CHR ''-'');
          u = (if t \<noteq> [] \<and> (hd t = CHR ''-'' \<or> hd t = CHR ''+'') then tl t else t);
          ip = takeWhile isDigit u;
          r1 = dropWhile isDigit u;
          hasDot = (r1 \<noteq> [] \<and> hd r1 = CHR ''.'');
          fp = (if hasDot then takeWhile isDigit (tl r1) else []);
          r2 = (if hasDot then dropWhile isDigit (tl r1) else r1)
      in if ip = [] \<and> fp = [] then None
         else
           (let m = (real (digitsValue ip) + real (digitsValue fp) / 10 ^ length fp)
                      * pow10 (exponentPart r2)
            in Some (if neg then - m else m)))"

section \<open>Values of cells\<close>

text \<open>What \<^verbatim>\<open>getCellValue\<close> hands to the rest of the code: \<^verbatim>\<open>null\<close>, a number, a string,
  or a boolean (which the source's type assertion lets through).\<close>

datatype jsval = JNull | JNum real | JStr string | JBool bool

subsection \<open>parseNumber\<close>

definition parseNumber :: "jsval \<Rightarrow> real option" where
  "parseNumber val =
     (case val of
        JNum v \<Rightarrow> Some v
      | JStr s \<Rightarrow>
          if trim s = [] then None
          else (let normalized = replaceFirst (CHR '','') (CHR ''.'') s in parseFloat normalized)
      | _ \<Rightarrow> None)"

section \<open>Angle helpers\<close>

text \<open>The expression \<^verbatim>\<open>/^(-?\d+)[\<degree>\s]+(\d+)/\<close>, matched at the start of the text; the
  result holds the two groups. Each quantifier is greedy and no shorter choice can
  succeed where the longest fails, so the match is read left to right.\<close>

definition isDmsSeparator :: "char \<Rightarrow> bool" where
  "isDmsSeparator c = (c = degreeGlyph \<or> isWhiteSpace c)"

definition dmsRegex :: "string \<Rightarrow> (string \<times> string) option" where
  "dmsRegex s =
     (let sgn = (if s \<noteq> [] \<and> hd s = CHR ''-'' then [CHR ''-''] else []);
          s1 = (if s \<noteq> [] \<and> hd s = CHR ''-'' then tl s else s);
          ds = takeWhile isDigit s1;
          s2 = dropWhile isDigit s1;
          seps = takeWhile isDmsSeparator s2;
          s3 = dropWhile isDmsSeparator s2;
          ms = takeWhile isDigit s3
      in if ds = [] \<or> seps = [] \<or> ms = [] then None else Some (sgn @ ds, ms))"

definition parseAngleToDecimal :: "jsval \<Rightarrow> real option" where
  "parseAngleToDecimal val =
     (case val of
        JNum v \<Rightarrow> Some v
      | JStr s \<Rightarrow>
          (case dmsRegex s of
             Some (g1, g2) \<Rightarrow>
               (case (parseInt10 g1, parseInt10 g2) of
                  (Some deg, Some min') \<Rightarrow>
                    (let sign = (if deg < 0 then - 1 else 1 :: real)
                     in Some (real_of_int \<bar>deg\<bar> + (real_of_int min' / 60) * sign))
                | _ \<Rightarrow> None)
           | None \<Rightarrow> parseNumber (JStr s))
      | _ \<Rightarrow> None)"

definition formatAngle :: "real \<Rightarrow> string" where
  "formatAngle decimalDeg =
     (let sign = (if decimalDeg < 0 then [CHR ''-''] else []);
          absVal = \<bar>decimalDeg\<bar>;
          deg = \<lfloor>absVal\<rfloor>;
          minPart = (absVal - real_of_int deg) * 60;
          min' = round minPart;
          degStr = padStart 2 (CHR ''0'') (intToString deg);
          minStr = padStart 2 (CHR ''0'') (intToString min')
      in sign @ degStr @ [degreeGlyph] @ minStr @ [minuteMark])"

section \<open>Randomization helpers\<close>

text \<open>\<^verbatim>\<open>x.toFixed(digits)\<close>: a \<^verbatim>\<open>RangeError\<close> unless \<open>0 \<le> digits \<le> 100\<close>; otherwise the sign,
  then the integer nearest to \<open>\<bar>x\<bar> \<sqdot> 10\<^sup>d\<close> (the larger one on a tie) written with a
  decimal point before its last \<open>d\<close> digits. (From \<open>10\<^sup>2\<^sup>1\<close> on JavaScript writes an
  exponent instead; the model writes the digits.)\<close>

definition toFixed :: "real \<Rightarrow> int \<Rightarrow> error + string" where
  "toFixed x digits =
     (if digits < 0 \<or> 100 < digits then Inl RangeError
      else
        (let f = nat digits;
             s = (if x < 0 then [CHR ''-''] else []);
             n = nat \<lfloor>\<bar>x\<bar> * 10 ^ f + 1 / 2\<rfloor>;
             m = padStart (f + 1) (CHR ''0'') (natToString n);
             k = length m
         in if f = 0 then Inr (s @ m)
            else Inr (s @ take (k - f) m @ [CHR ''.''] @ drop (k - f) m)))"

text \<open>The source's idiom \<^verbatim>\<open>parseFloat(x.toFixed(precision))\<close>. Lemma \<open>fixedNumber_value\<close>
  below shows that the text \<^verbatim>\<open>toFixed\<close> writes is always read back as a number.\<close>

definition fixedNumber :: "real \<Rightarrow> int \<Rightarrow> error + real" where
  "fixedNumber x precision =
     bindE (toFixed x precision)
       (\<lambda>s. case parseFloat s of Some v \<Rightarrow> Inr v | None \<Rightarrow> Inl NaNResult)"

text \<open>The value of \<^verbatim>\<open>parseFloat(x.toFixed(f))\<close>: \<open>x\<close> rounded to \<open>f\<close> decimal places, a tie
  going away from zero.\<close>

definition roundFixed :: "real \<Rightarrow> nat \<Rightarrow> real" where
  "roundFixed x f =
     (if x < 0 then - (real (nat \<lfloor>\<bar>x\<bar> * 10 ^ f + 1 / 2\<rfloor>) / 10 ^ f)
      else real (nat \<lfloor>\<bar>x\<bar> * 10 ^ f + 1 / 2\<rfloor>) / 10 ^ f)"

text \<open>A source of draws that always gives the same value, for concrete runs.\<close>

definition fixedDraws :: "real \<Rightarrow> nat \<Rightarrow> real" where
  "fixedDraws r i = r"

text \<open>\<^verbatim>\<open>randomizeInSpec\<close>; the result holds the index of the next draw.\<close>

definition randomizeInSpec :: "(nat \<Rightarrow> real) \<Rightarrow> nat \<Rightarrow> real \<Rightarrow> real \<Rightarrow> int \<Rightarrow> error + (real \<times> nat)" where
  "randomizeInSpec rnd pos min' max' precision =
     (let tolerance = max' - min'
      in if tolerance \<le> 0 then Inr (min', pos)
         else
           (let safeMin = min' + tolerance * (5 / 100);
                safeMax = max' - tolerance * (5 / 100)
            in if safeMax \<le> safeMin then
                 (let randomVal = rnd pos * (max' - min') + min'
                  in bindE (fixedNumber randomVal precision) (\<lambda>v. Inr (v, Suc pos)))
               else
                 (let randomVal = rnd pos * (safeMax - safeMin) + safeMin
                  in bindE (fixedNumber randomVal precision) (\<lambda>v. Inr (v, Suc pos)))))"

text \<open>The step of \<^verbatim>\<open>randomizeOutSpec\<close>: one arc-minute for an angle, else \<^verbatim>\<open>Math.pow(10, -precision)\<close>.\<close>

definition stepOf :: "int \<Rightarrow> bool \<Rightarrow> real" where
  "stepOf precision isAngle = (if isAngle then 1 / 60 else pow10 (- precision))"

text \<open>The candidate of one attempt, from the draw \<open>r\<close> of that attempt.\<close>

definition drawCandidate :: "real \<Rightarrow> real \<Rightarrow> real \<Rightarrow> int \<Rightarrow> bool \<Rightarrow> error + real" where
  "drawCandidate r originalValue step precision isAngle =
     (let randomInt = \<lfloor>r * 7\<rfloor> - 3;
          randomInt = (if randomInt = 0 then 1 else randomInt);
          randomStep = real_of_int randomInt * step;
          candidate = originalValue + randomStep
      in if \<not> isAngle then fixedNumber candidate precision else Inr candidate)"

text \<open>The test that accepts a candidate at a given value of \<^verbatim>\<open>attempts\<close>.\<close>

definition acceptCandidate :: "real \<Rightarrow> real \<Rightarrow> real \<Rightarrow> nat \<Rightarrow> real \<Rightarrow> bool" where
  "acceptCandidate originalValue min' max' attempts candidate =
     (let isStillOut = (candidate > max' \<or> candidate < min');
          directionPreserved =
            ((originalValue > max' \<and> candidate > max') \<or> (originalValue < min' \<and> candidate < min'))
      in isStillOut \<and> (directionPreserved \<or> attempts > 20) \<and> candidate \<noteq> originalValue)"

text \<open>The \<^verbatim>\<open>while (attempts < 50)\<close> loop. The result holds \<^verbatim>\<open>newValue\<close>, the value of
  \<^verbatim>\<open>attempts\<close> when the loop is left, and the index of the next draw.\<close>

function outSpecLoop ::
  "(nat \<Rightarrow> real) \<Rightarrow> real \<Rightarrow> real \<Rightarrow> real \<Rightarrow> int \<Rightarrow> bool \<Rightarrow> real \<Rightarrow> nat \<Rightarrow> nat
     \<Rightarrow> error + (real \<times> nat \<times> nat)" where
  "outSpecLoop rnd originalValue min' max' precision isAngle step attempts pos =
     (if attempts < 50 then
        (case drawCandidate (rnd pos) originalValue step precision isAngle of
           Inl e \<Rightarrow> Inl e
         | Inr candidate \<Rightarrow>
             if acceptCandidate originalValue min' max' attempts candidate
             then Inr (candidate, attempts, Suc pos)
             else outSpecLoop rnd originalValue min' max' precision isAngle step
                    (Suc attempts) (Suc pos))
      else Inr (originalValue, attempts, pos))"
  by pat_completeness auto
termination
  by (relation "measure (\<lambda>(rnd, originalValue, min', max', precision, isAngle, step, attempts, pos).
        50 - attempts)") auto

declare outSpecLoop.simps [simp del]

definition randomizeOutSpecRun ::
  "(nat \<Rightarrow> real) \<Rightarrow> nat \<Rightarrow> real \<Rightarrow> real \<Rightarrow> real \<Rightarrow> int \<Rightarrow> bool \<Rightarrow> error + (real \<times> nat \<times> nat)" where
  "randomizeOutSpecRun rnd pos originalValue min' max' precision isAngle =
     outSpecLoop rnd originalValue min' max' precision isAngle (stepOf precision isAngle) 0 pos"

text \<open>\<^verbatim>\<open>randomizeOutSpec\<close> returns \<^verbatim>\<open>newValue\<close>; the index of the next draw goes with it.\<close>

definition randomizeOutSpec ::
  "(nat \<Rightarrow> real) \<Rightarrow> nat \<Rightarrow> real \<Rightarrow> real \<Rightarrow> real \<Rightarrow> int \<Rightarrow> bool \<Rightarrow> error + (real \<times> nat)" where
  "randomizeOutSpec rnd pos originalValue min' max' precision isAngle =
     bindE (randomizeOutSpecRun rnd pos originalValue min' max' precision isAngle)
       (\<lambda>(newValue, attempts, pos'). Inr (newValue, pos'))"

section \<open>The grid\<close>

text \<open>
  The workbook library is outside the source; the grid is what the code reads and writes
  through it. A cell holds a value of one of the shapes \<^verbatim>\<open>getCellValue\<close> tells apart, whether
  it is the follower of a merged region (\<^verbatim>\<open>cell.isMerged && cell.address !== cell.master.address\<close>),
  and a number format. The value of a follower is the one the library reads for it; the
  code never writes to a follower, and what a write to the master of a region changes for
  its followers is not modelled. A row is the list of its cells, column 1 first; a sheet
  is the list of its rows, a workbook the list of its sheets. Column numbers are taken to
  be within the bounds of the library.
\<close>

datatype formulaResult =
    NoResult              \<comment> \<open>\<^verbatim>\<open>result\<close> is \<^verbatim>\<open>undefined\<close>\<close>
  | PrimitiveResult jsval \<comment> \<open>a number, a string, a boolean, or \<^verbatim>\<open>null\<close>\<close>
  | ObjectResult          \<comment> \<open>a date or an error value\<close>

datatype cellValue =
    CellNull                  \<comment> \<open>\<^verbatim>\<open>null\<close> or \<^verbatim>\<open>undefined\<close>\<close>
  | CellNumber real
  | CellString string
  | CellBoolean bool
  | CellFormula formulaResult \<comment> \<open>\<^verbatim>\<open>{ formula, result }\<close>\<close>
  | CellRichText "string list" \<comment> \<open>\<^verbatim>\<open>{ richText: [{ text }, ...] }\<close>\<close>
  | CellHyperlink string      \<comment> \<open>\<^verbatim>\<open>{ text, hyperlink }\<close> with a string as text\<close>
  | CellOther                 \<comment> \<open>a date, an error value, any other object\<close>

record cell =
  cvalue :: cellValue
  isFollower :: bool
  numFmt :: "string option"

type_synonym row = "cell list"
type_synonym sheet = "row list"

definition emptyCell :: cell where
  "emptyCell = \<lparr>cvalue = CellNull, isFollower = False, numFmt = None\<rparr>"

text \<open>\<^verbatim>\<open>row.getCell(col)\<close>, with 1-based columns; a cell that is not there is empty.\<close>

definition getCell :: "row \<Rightarrow> nat \<Rightarrow> cell" where
  "getCell r col = (if 1 \<le> col \<and> col \<le> length r then r ! (col - 1) else emptyCell)"

text \<open>Writing to the cell of a column: the cell is replaced, and a row that is too short
  is filled with empty cells up to that column. There is no column 0, and the code never
  writes to one.\<close>

definition setCell :: "row \<Rightarrow> nat \<Rightarrow> cell \<Rightarrow> row" where
  "setCell r col c =
     (if col = 0 then r
      else if col \<le> length r then r[col - 1 := c]
      else r @ replicate (col - 1 - length r) emptyCell @ [c])"

text \<open>\<^verbatim>\<open>row.hasValues\<close>, which \<^verbatim>\<open>eachRow({ includeEmpty: false }, ...)\<close> asks of each row:
  some cell is not of the null type.\<close>

definition hasValues :: "row \<Rightarrow> bool" where
  "hasValues r = list_ex (\<lambda>c. cvalue c \<noteq> CellNull \<or> isFollower c) r"


subsection \<open>getCellValue\<close>

definition getCellValue :: "cellValue \<Rightarrow> jsval" where
  "getCellValue v =
     (case v of
        CellNull \<Rightarrow> JNull
      | CellFormula res \<Rightarrow>
          (case res of
             NoResult \<Rightarrow> JNull
           | ObjectResult \<Rightarrow> JNull
           | PrimitiveResult p \<Rightarrow> p)
      | CellRichText runs \<Rightarrow> JStr (concat runs)
      | CellHyperlink t \<Rightarrow> JStr t
      | CellOther \<Rightarrow> JNull
      | CellNumber x \<Rightarrow> JNum x
      | CellString s \<Rightarrow> JStr s
      | CellBoolean b \<Rightarrow> JBool b)"

section \<open>The main process\<close>

record ProcessingStats =
  totalRows :: nat
  processedCells :: nat
  outOfSpecCount :: nat
  inSpecCount :: nat

definition COL_DESC :: nat where "COL_DESC = 2"
definition COL_UT :: nat where "COL_UT = 3"
definition COL_LT :: nat where "COL_LT = 4"

subsection \<open>The regular expressions of the cell rewriter\<close>

text \<open>\<^verbatim>\<open>/^-?\d*([.,]\d+)?\s*$/\<close>, tested on a whole text.\<close>

definition isDecimalSeparator :: "char \<Rightarrow> bool" where
  "isDecimalSeparator c = (c = CHR ''.'' \<or> c = CHR '','')"

definition cleanNumberRegex :: "string \<Rightarrow> bool" where
  "cleanNumberRegex s =
     (let s1 = (if s \<noteq> [] \<and> hd s = CHR ''-'' then tl s else s);
          s2 = dropWhile isDigit s1;
          s3 = (if s2 \<noteq> [] \<and> isDecimalSeparator (hd s2) \<and> takeWhile isDigit (tl s2) \<noteq> []
                then dropWhile isDigit (tl s2) else s2)
      in dropWhile isWhiteSpace s3 = [])"

text \<open>\<^verbatim>\<open>/-?\d+(?:[.,]\d+)?/\<close> matched at the start of a text: the matched text and the rest.\<close>

definition linearToken :: "string \<Rightarrow> (string \<times> string) option" where
  "linearToken s =
     (let sgn = (if s \<noteq> [] \<and> hd s = CHR ''-'' then [CHR ''-''] else []);
          s1 = (if s \<noteq> [] \<and> hd s = CHR ''-'' then tl s else s);
          ds = takeWhile isDigit s1;
          s2 = dropWhile isDigit s1
      in if ds = [] then None
         else if s2 \<noteq> [] \<and> isDecimalSeparator (hd s2) \<and> takeWhile isDigit (tl s2) \<noteq> []
         then Some (sgn @ ds @ [hd s2] @ takeWhile isDigit (tl s2), dropWhile isDigit (tl s2))
         else Some (sgn @ ds, s2))"

text \<open>\<^verbatim>\<open>/-?\d+[\<degree>\s]\d+'?/\<close> matched at the start of a text.\<close>

definition angleToken :: "string \<Rightarrow> (string \<times> string) option" where
  "angleToken s =
     (let sgn = (if s \<noteq> [] \<and> hd s = CHR ''-'' then [CHR ''-''] else []);
          s1 = (if s \<noteq> [] \<and> hd s = CHR ''-'' then tl s else s);
          ds = takeWhile isDigit s1;
          s2 = dropWhile isDigit s1
      in if ds = [] \<or> s2 = [] then None
         else if isDmsSeparator (hd s2) \<and> takeWhile isDigit (tl s2) \<noteq> [] then
           (let ms = takeWhile isDigit (tl s2);
                s3 = dropWhile isDigit (tl s2)
            in if s3 \<noteq> [] \<and> hd s3 = minuteMark
               then Some (sgn @ ds @ [hd s2] @ ms @ [minuteMark], tl s3)
               else Some (sgn @ ds @ [hd s2] @ ms, s3))
         else None)"

definition tokenAt :: "bool \<Rightarrow> string \<Rightarrow> (string \<times> string) option" where
  "tokenAt isAngle s = (if isAngle then angleToken s else linearToken s)"

text \<open>\<^verbatim>\<open>pattern.test(text)\<close> on a fresh expression: is there a match at some position?\<close>

fun patternTest :: "bool \<Rightarrow> string \<Rightarrow> bool" where
  "patternTest isAngle [] = False"
| "patternTest isAngle (c # cs) =
     (case tokenAt isAngle (c # cs) of
        Some m \<Rightarrow> True
      | None \<Rightarrow> patternTest isAngle cs)"

subsection \<open>Rewriting one value\<close>

text \<open>The block that both cases of the rewriter run on a decoded value: classify it
  against the window, generate the new value, count it.\<close>

definition regenerate ::
  "(nat \<Rightarrow> real) \<Rightarrow> bool \<Rightarrow> int \<Rightarrow> real \<Rightarrow> real \<Rightarrow> real \<Rightarrow> ProcessingStats \<times> nat
     \<Rightarrow> error + (real \<times> ProcessingStats \<times> nat)" where
  "regenerate rnd isAngle precision currentMin currentMax val sp =
     (case sp of (stats, pos) \<Rightarrow>
        (let isOut = (val > currentMax \<or> val < currentMin)
         in if isOut then
              bindE (randomizeOutSpec rnd pos val currentMin currentMax precision isAngle)
                (\<lambda>(newVal, pos').
                   Inr (newVal, stats\<lparr>outOfSpecCount := outOfSpecCount stats + 1\<rparr>, pos'))
            else
              bindE (randomizeInSpec rnd pos currentMin currentMax precision)
                (\<lambda>(newVal, pos').
                   Inr (newVal, stats\<lparr>inSpecCount := inSpecCount stats + 1\<rparr>, pos'))))"

text \<open>The callback of \<^verbatim>\<open>cellValueRaw.replace(pattern, ...)\<close>: the text that replaces one
  match, with the counters, the index of the next draw and \<^verbatim>\<open>cellModified\<close>.\<close>

definition replaceMatch ::
  "(nat \<Rightarrow> real) \<Rightarrow> bool \<Rightarrow> int \<Rightarrow> real \<Rightarrow> real \<Rightarrow> ProcessingStats \<times> nat \<times> bool \<Rightarrow> string
     \<Rightarrow> error + (string \<times> ProcessingStats \<times> nat \<times> bool)" where
  "replaceMatch rnd isAngle precision currentMin currentMax acc match =
     (case acc of (stats, pos, cellModified) \<Rightarrow>
        (let val = (if isAngle then parseAngleToDecimal (JStr match) else parseNumber (JStr match))
         in case val of
              None \<Rightarrow> Inr (match, stats, pos, cellModified)
            | Some v \<Rightarrow>
                bindE (regenerate rnd isAngle precision currentMin currentMax v (stats, pos))
                  (\<lambda>(newVal, stats', pos').
                     if isAngle then Inr (formatAngle newVal, stats', pos', True)
                     else if CHR '','' \<in> set match then
                       bindE (toFixed newVal 2)
                         (\<lambda>t. Inr (replaceFirst (CHR ''.'') (CHR '','') t, stats', pos', True))
                     else bindE (toFixed newVal 2) (\<lambda>t. Inr (t, stats', pos', True)))))"

text \<open>\<^verbatim>\<open>cellValueRaw.replace(pattern, callback)\<close> with a global expression: the matches are
  taken from left to right, each search starting where the last match ended, and the text
  between the matches is kept.\<close>

function replaceAll ::
  "(nat \<Rightarrow> real) \<Rightarrow> bool \<Rightarrow> int \<Rightarrow> real \<Rightarrow> real \<Rightarrow> ProcessingStats \<times> nat \<times> bool \<Rightarrow> string
     \<Rightarrow> error + (string \<times> ProcessingStats \<times> nat \<times> bool)" where
  "replaceAll rnd isAngle precision currentMin currentMax acc [] = Inr ([], acc)"
| "replaceAll rnd isAngle precision currentMin currentMax acc (c # cs) =
     (case tokenAt isAngle (c # cs) of
        None \<Rightarrow>
          (case replaceAll rnd isAngle precision currentMin currentMax acc cs of
             Inl e \<Rightarrow> Inl e
           | Inr (out, acc') \<Rightarrow> Inr (c # out, acc'))
      | Some (match, rest) \<Rightarrow>
          (case replaceMatch rnd isAngle precision currentMin currentMax acc match of
             Inl e \<Rightarrow> Inl e
           | Inr (t, acc') \<Rightarrow>
               (case replaceAll rnd isAngle precision currentMin currentMax acc' rest of
                  Inl e \<Rightarrow> Inl e
                | Inr (out, acc'') \<Rightarrow> Inr (t @ out, acc''))))"
  by pat_completeness auto

lemma dropWhile_shorter: "takeWhile P s \<noteq> [] \<Longrightarrow> length (dropWhile P s) < length s"
  by (cases s) (auto simp: le_imp_less_Suc length_dropWhile_le split: if_splits)

lemma tl_dropWhile_le: "length (dropWhile P (tl s)) \<le> length s"
  by (cases s) (auto intro: le_SucI length_dropWhile_le)

lemma linearToken_shorter: "linearToken s = Some (m, rest) \<Longrightarrow> length rest < length s"
proof -
  assume a: "linearToken s = Some (m, rest)"
  define s1 where "s1 = (if s \<noteq> [] \<and> hd s = CHR ''-'' then tl s else s)"
  define s2 where "s2 = dropWhile isDigit s1"
  have s1: "length s1 \<le> length s" by (simp add: s1_def)
  from a have ne: "takeWhile isDigit s1 \<noteq> []"
    by (auto simp: linearToken_def Let_def s1_def split: if_splits)
  then have s2: "length s2 < length s1"
    unfolding s2_def by (rule dropWhile_shorter)
  from a have "rest = s2 \<or> rest = dropWhile isDigit (tl s2)"
    by (auto simp: linearToken_def Let_def s1_def s2_def split: if_splits)
  then have "length rest \<le> length s2"
    using tl_dropWhile_le [of isDigit s2] by auto
  with s1 s2 show ?thesis by simp
qed

lemma angleToken_shorter: "angleToken s = Some (m, rest) \<Longrightarrow> length rest < length s"
proof -
  assume a: "angleToken s = Some (m, rest)"
  define s1 where "s1 = (if s \<noteq> [] \<and> hd s = CHR ''-'' then tl s else s)"
  define s2 where "s2 = dropWhile isDigit s1"
  define s3 where "s3 = dropWhile isDigit (tl s2)"
  have s1: "length s1 \<le> length s" by (simp add: s1_def)
  from a have ne: "takeWhile isDigit s1 \<noteq> []"
    by (auto simp: angleToken_def Let_def s1_def split: if_splits)
  then have s2: "length s2 < length s1"
    unfolding s2_def by (rule dropWhile_shorter)
  have s3: "length s3 \<le> length s2"
    unfolding s3_def by (rule tl_dropWhile_le)
  from a have "rest = s3 \<or> rest = tl s3"
    by (auto simp: angleToken_def Let_def s1_def s2_def s3_def split: if_splits)
  then have "length rest \<le> length s3" by auto
  with s1 s2 s3 show ?thesis by simp
qed

lemma tokenAt_shorter: "tokenAt isAngle s = Some (m, rest) \<Longrightarrow> length rest < length s"
  by (auto simp: tokenAt_def dest: linearToken_shorter angleToken_shorter split: if_splits)

termination replaceAll
proof (relation "measure (\<lambda>(rnd, isAngle, precision, currentMin, currentMax, acc, s). length s)")
  show "wf (measure (\<lambda>(rnd, isAngle, precision, currentMin, currentMax, acc, s). length s))"
    by simp
next
  fix rnd :: "nat \<Rightarrow> real" and isAngle :: bool and precision :: int
    and currentMin currentMax :: real and acc :: "ProcessingStats \<times> nat \<times> bool"
    and c :: char and cs :: string
  show "((rnd, isAngle, precision, currentMin, currentMax, acc, cs),
         (rnd, isAngle, precision, currentMin, currentMax, acc, c # cs))
        \<in> measure (\<lambda>(rnd, isAngle, precision, currentMin, currentMax, acc, s). length s)"
    by simp
next
  fix rnd :: "nat \<Rightarrow> real" and isAngle :: bool and precision :: int
    and currentMin currentMax :: real and acc acc' :: "ProcessingStats \<times> nat \<times> bool"
    and c :: char and cs match rest t :: string and x2 :: "string \<times> string"
    and x2a :: "string \<times> ProcessingStats \<times> nat \<times> bool"
  assume "tokenAt isAngle (c # cs) = Some x2" "(match, rest) = x2"
  then have "length rest < length (c # cs)"
    using tokenAt_shorter [of isAngle "c # cs" match rest] by simp
  then show "((rnd, isAngle, precision, currentMin, currentMax, acc', rest),
         (rnd, isAngle, precision, currentMin, currentMax, acc, c # cs))
        \<in> measure (\<lambda>(rnd, isAngle, precision, currentMin, currentMax, acc, s). length s)"
    by simp
qed

declare replaceAll.simps [simp del]

subsection \<open>One target cell\<close>

text \<open>Case A of the rewriter, for the decoded value \<open>singleVal\<close> of the cell: the new value is
  written back as an angle text, or as a number with the format \<^verbatim>\<open>0.00\<close>.\<close>

definition caseSingleValue ::
  "(nat \<Rightarrow> real) \<Rightarrow> bool \<Rightarrow> int \<Rightarrow> real \<Rightarrow> real \<Rightarrow> row \<times> ProcessingStats \<times> nat \<Rightarrow> nat \<Rightarrow> real
     \<Rightarrow> error + (row \<times> ProcessingStats \<times> nat)" where
  "caseSingleValue rnd isAngle precision currentMin currentMax acc colIndex singleVal =
     (case acc of (r, stats, pos) \<Rightarrow>
        bindE (regenerate rnd isAngle precision currentMin currentMax singleVal (stats, pos))
          (\<lambda>(newVal, stats', pos').
             (let c = getCell r colIndex;
                  c' = (if isAngle then c\<lparr>cvalue := CellString (formatAngle newVal)\<rparr>
                        else c\<lparr>cvalue := CellNumber newVal, numFmt := Some ''0.00''\<rparr>)
              in Inr (setCell r colIndex c',
                      stats'\<lparr>processedCells := processedCells stats' + 1\<rparr>, pos'))))"

text \<open>Case B, for a cell that holds the text \<open>s\<close>.\<close>

definition caseComplexString ::
  "(nat \<Rightarrow> real) \<Rightarrow> bool \<Rightarrow> int \<Rightarrow> real \<Rightarrow> real \<Rightarrow> row \<times> ProcessingStats \<times> nat \<Rightarrow> nat \<Rightarrow> string
     \<Rightarrow> error + (row \<times> ProcessingStats \<times> nat)" where
  "caseComplexString rnd isAngle precision currentMin currentMax acc colIndex s =
     (case acc of (r, stats, pos) \<Rightarrow>
        if patternTest isAngle s then
          bindE (replaceAll rnd isAngle precision currentMin currentMax (stats, pos, False) s)
            (\<lambda>(newText, stats', pos', cellModified).
               if cellModified then
                 Inr (setCell r colIndex ((getCell r colIndex)\<lparr>cvalue := CellString newText\<rparr>),
                      stats'\<lparr>processedCells := processedCells stats' + 1\<rparr>, pos')
               else Inr (r, stats', pos'))
        else Inr (r, stats, pos))"

text \<open>The body of \<^verbatim>\<open>excelTargetCols.forEach\<close>: one target cell of a row whose window is
  \<open>[currentMin, currentMax]\<close>.\<close>

definition processCell ::
  "(nat \<Rightarrow> real) \<Rightarrow> bool \<Rightarrow> real \<Rightarrow> real \<Rightarrow> row \<times> ProcessingStats \<times> nat \<Rightarrow> nat
     \<Rightarrow> error + (row \<times> ProcessingStats \<times> nat)" where
  "processCell rnd isAngle currentMin currentMax acc colIndex =
     (case acc of (r, stats, pos) \<Rightarrow>
        (let c = getCell r colIndex
         in if isFollower c then Inr acc
            else
              (let cellValueRaw = getCellValue (cvalue c)
               in if cellValueRaw \<noteq> JNull \<and> cellValueRaw \<noteq> JStr [] then
                    (let precision = (if isAngle then 0 else 2);
                         singleVal = (if isAngle then parseAngleToDecimal cellValueRaw
                                      else parseNumber cellValueRaw);
                         isCleanNumberString =
                           (case cellValueRaw of JStr s \<Rightarrow> cleanNumberRegex (trim s) | _ \<Rightarrow> False);
                         isNumberType = (case cellValueRaw of JNum x \<Rightarrow> True | _ \<Rightarrow> False);
                         isString = (case cellValueRaw of JStr s \<Rightarrow> True | _ \<Rightarrow> False);
                         caseB =
                           (case cellValueRaw of
                              JStr s \<Rightarrow> caseComplexString rnd isAngle precision currentMin
                                          currentMax acc colIndex s
                            | _ \<Rightarrow> Inr acc)
                     in case singleVal of
                          Some v \<Rightarrow>
                            if isNumberType \<or> isCleanNumberString \<or> (isAngle \<and> isString)
                            then caseSingleValue rnd isAngle precision currentMin currentMax
                                   acc colIndex v
                            else caseB
                        | None \<Rightarrow> caseB)
                  else Inr acc)))"

text \<open>A loop over a list that stops at the first raise.\<close>

fun forEachE :: "('s \<Rightarrow> 'a \<Rightarrow> error + 's) \<Rightarrow> 's \<Rightarrow> 'a list \<Rightarrow> error + 's" where
  "forEachE f acc [] = Inr acc"
| "forEachE f acc (x # xs) =
     (case f acc x of Inl e \<Rightarrow> Inl e | Inr acc' \<Rightarrow> forEachE f acc' xs)"

subsection \<open>One row\<close>

record sheetState =
  currentMax :: "real option"
  currentMin :: "real option"
  stats :: ProcessingStats
  nextDraw :: nat

text \<open>Step 1 of the row callback: the row is angular when the trimmed, lower-cased text of
  column B starts with \<^verbatim>\<open>ang\<close> or contains the degree glyph.\<close>

definition rowIsAngle :: "row \<Rightarrow> bool" where
  "rowIsAngle r =
     (case getCellValue (cvalue (getCell r COL_DESC)) of
        JStr descVal \<Rightarrow>
          (let text = toLowerCase (trim descVal)
           in startsWith text ''ang'' \<or> degreeGlyph \<in> set text)
      | _ \<Rightarrow> False)"

text \<open>Step 2: the bounds the row itself defines, decoded as angles in an angular row.\<close>

definition rowMax :: "row \<Rightarrow> real option" where
  "rowMax r =
     (let rawMax = getCellValue (cvalue (getCell r COL_UT))
      in if rowIsAngle r then parseAngleToDecimal rawMax else parseNumber rawMax)"

definition rowMin :: "row \<Rightarrow> real option" where
  "rowMin r =
     (let rawMin = getCellValue (cvalue (getCell r COL_LT))
      in if rowIsAngle r then parseAngleToDecimal rawMin else parseNumber rawMin)"

text \<open>The latch: \<^verbatim>\<open>if (valMax !== null) currentMax = valMax; if (valMin !== null) currentMin = valMin;\<close>\<close>

definition latch :: "sheetState \<Rightarrow> row \<Rightarrow> sheetState" where
  "latch st r =
     (let st1 = (case rowMax r of Some valMax \<Rightarrow> st\<lparr>currentMax := Some valMax\<rparr> | None \<Rightarrow> st)
      in case rowMin r of Some valMin \<Rightarrow> st1\<lparr>currentMin := Some valMin\<rparr> | None \<Rightarrow> st1)"

text \<open>The callback of \<^verbatim>\<open>sheet.eachRow\<close>: count the row, latch the bounds, and rewrite the
  target cells when both latched bounds are there.\<close>

definition processRow ::
  "(nat \<Rightarrow> real) \<Rightarrow> nat list \<Rightarrow> sheetState \<Rightarrow> row \<Rightarrow> error + (row \<times> sheetState)" where
  "processRow rnd excelTargetCols st r =
     (let st0 = st\<lparr>stats := (stats st)\<lparr>totalRows := totalRows (stats st) + 1\<rparr>\<rparr>;
          isAngle = rowIsAngle r;
          st1 = latch st0 r
      in case (currentMax st1, currentMin st1) of
           (Some cmax, Some cmin) \<Rightarrow>
             bindE (forEachE (processCell rnd isAngle cmin cmax) (r, stats st1, nextDraw st1)
                      excelTargetCols)
               (\<lambda>(r', stats', pos'). Inr (r', st1\<lparr>stats := stats', nextDraw := pos'\<rparr>))
         | _ \<Rightarrow> Inr (r, st1))"

subsection \<open>processSheet and processExcelBuffer\<close>

text \<open>\<^verbatim>\<open>sheet.eachRow({ includeEmpty: false }, ...)\<close>: the rows that have values, in order.\<close>

fun eachRow ::
  "(nat \<Rightarrow> real) \<Rightarrow> nat list \<Rightarrow> sheetState \<Rightarrow> row list \<Rightarrow> error + (row list \<times> sheetState)" where
  "eachRow rnd excelTargetCols st [] = Inr ([], st)"
| "eachRow rnd excelTargetCols st (r # rs) =
     (if hasValues r then
        (case processRow rnd excelTargetCols st r of
           Inl e \<Rightarrow> Inl e
         | Inr (r', st') \<Rightarrow>
             (case eachRow rnd excelTargetCols st' rs of
                Inl e \<Rightarrow> Inl e
              | Inr (rs', st'') \<Rightarrow> Inr (r' # rs', st'')))
      else
        (case eachRow rnd excelTargetCols st rs of
           Inl e \<Rightarrow> Inl e
         | Inr (rs', st'') \<Rightarrow> Inr (r # rs', st'')))"

definition processSheet ::
  "(nat \<Rightarrow> real) \<Rightarrow> sheet \<Rightarrow> ProcessingStats \<times> nat \<Rightarrow> nat list
     \<Rightarrow> error + (sheet \<times> ProcessingStats \<times> nat)" where
  "processSheet rnd sh sp targetCols =
     (case sp of (stats0, pos) \<Rightarrow>
        (let excelTargetCols = map (\<lambda>c. c + 1) targetCols;
             st = \<lparr>currentMax = None, currentMin = None, stats = stats0, nextDraw = pos\<rparr>
         in bindE (eachRow rnd excelTargetCols st sh)
              (\<lambda>(sh', st'). Inr (sh', stats st', nextDraw st'))))"


definition defaultTargetCols :: "nat list" where
  "defaultTargetCols = [4, 5, 6]"


section \<open>Cells, rows and states for concrete runs\<close>

definition plainCell :: "cellValue \<Rightarrow> cell" where
  "plainCell v = \<lparr>cvalue = v, isFollower = False, numFmt = None\<rparr>"

definition followerCell :: "cellValue \<Rightarrow> cell" where
  "followerCell v = \<lparr>cvalue = v, isFollower = True, numFmt = None\<rparr>"

definition zeroStats :: ProcessingStats where
  "zeroStats = \<lparr>totalRows = 0, processedCells = 0, outOfSpecCount = 0, inSpecCount = 0\<rparr>"

text \<open>The state of a sheet after \<open>n\<close> rows that rewrote nothing, with the given window.\<close>

definition windowState :: "nat \<Rightarrow> real option \<Rightarrow> real option \<Rightarrow> sheetState" where
  "windowState n cmax cmin =
     \<lparr>currentMax = cmax, currentMin = cmin, stats = zeroStats\<lparr>totalRows := n\<rparr>, nextDraw = 0\<rparr>"


text \<open>A row with an upper bound only and a measured value in column E.\<close>

definition rowUpperOnly :: row where
  "rowUpperOnly = [plainCell CellNull, plainCell (CellString ''Diameter''), plainCell (CellNumber 10),
                   plainCell CellNull, plainCell (CellNumber (25 / 2))]"

text \<open>A sheet of three linear rows with a measured value in column E: the bounds \<open>[0, 10]\<close>
  and the value 4; no bound and the value 3; the upper bound 15 only and the value 12.\<close>

definition sheetRow1 :: row where
  "sheetRow1 = [plainCell CellNull, plainCell (CellString ''Diameter''), plainCell (CellNumber 10),
                plainCell (CellNumber 0), plainCell (CellNumber 4)]"

definition sheetRow2 :: row where
  "sheetRow2 = [plainCell CellNull, plainCell (CellString ''Diameter''), plainCell CellNull,
                plainCell CellNull, plainCell (CellNumber 3)]"

definition sheetRow3 :: row where
  "sheetRow3 = [plainCell CellNull, plainCell (CellString ''Diameter''), plainCell (CellNumber 15),
                plainCell CellNull, plainCell (CellNumber 12)]"

text \<open>A cell as the single-value case leaves it in a linear row.\<close>

definition numberCell :: "real \<Rightarrow> cell" where
  "numberCell v = \<lparr>cvalue = CellNumber v, isFollower = False, numFmt = Some ''0.00''\<rparr>"

section \<open>Facts about the library functions\<close>

lemma bindE_Inl [simp]: "bindE (Inl e) f = Inl e"
  by (simp add: bindE_def)

lemma bindE_Inr [simp]: "bindE (Inr x) f = f x"
  by (simp add: bindE_def)

lemma isDigit_digitChar: "n < 10 \<Longrightarrow> isDigit (digitChar n)"
  by (simp add: isDigit_def digitChar_def)

lemma digitVal_digitChar: "n < 10 \<Longrightarrow> digitVal (digitChar n) = n"
  by (simp add: digitVal_def digitChar_def)

lemma digitsValue_Nil [simp]: "digitsValue [] = 0"
  by (simp add: digitsValue_def)

lemma digitsValue_append: "digitsValue (a @ b) = digitsValue a * 10 ^ length b + digitsValue b"
  unfolding digitsValue_def
  by (induction b arbitrary: a rule: rev_induct) (simp_all add: algebra_simps)

lemma natToString_digits: "list_all isDigit (natToString n)"
  by (induction n rule: natToString.induct) (subst natToString.simps, simp add: isDigit_digitChar)

lemma natToString_nonempty: "natToString n \<noteq> []"
  by (subst natToString.simps) simp

lemma digitsValue_natToString: "digitsValue (natToString n) = n"
proof (induction n rule: natToString.induct)
  case (1 n)
  show ?case
  proof (cases "n < 10")
    case True
    then show ?thesis
      by (subst natToString.simps) (simp add: digitsValue_def digitVal_digitChar)
  next
    case False
    with 1 have "digitsValue (natToString (n div 10)) = n div 10" by simp
    with False show ?thesis
      by (subst natToString.simps)
        (simp add: digitsValue_append, simp add: digitsValue_def digitVal_digitChar)
  qed
qed

lemma takeWhile_stop: "list_all P a \<Longrightarrow> r = [] \<or> \<not> P (hd r) \<Longrightarrow> takeWhile P (a @ r) = a"
  by (induction a) (cases r; auto)+

lemma dropWhile_stop: "list_all P a \<Longrightarrow> r = [] \<or> \<not> P (hd r) \<Longrightarrow> dropWhile P (a @ r) = r"
  by (induction a) (cases r; auto)+

lemma dropWhile_none: "s = [] \<or> \<not> P (hd s) \<Longrightarrow> dropWhile P s = s"
  by (cases s) auto

lemma takeWhile_none: "s = [] \<or> \<not> P (hd s) \<Longrightarrow> takeWhile P s = []"
  by (cases s) auto

lemma digit_not_white: "isDigit c \<Longrightarrow> \<not> isWhiteSpace c"
  by (auto simp: isDigit_def isWhiteSpace_def)

lemma not_digit_chars [simp]:
  "\<not> isDigit (CHR ''-'')" "\<not> isDigit (CHR ''+'')" "\<not> isDigit (CHR ''.'')"
  "\<not> isDigit (CHR '','')" "\<not> isDigit (CHR ''e'')" "\<not> isDigit (CHR ''E'')"
  by (simp_all add: isDigit_def)

lemma not_white_chars [simp]:
  "\<not> isWhiteSpace (CHR ''-'')" "\<not> isWhiteSpace (CHR ''+'')" "\<not> isWhiteSpace (CHR ''.'')"
  "\<not> isWhiteSpace (CHR '','')"
  by (simp_all add: isWhiteSpace_def)

lemma isDigit_zero [simp]: "isDigit (CHR ''0'')"
  by (simp add: isDigit_def)

lemma digitVal_zero [simp]: "digitVal (CHR ''0'') = 0"
  by (simp add: digitVal_def)

lemma digitsValue_zeros: "digitsValue (replicate k (CHR ''0'') @ ds) = digitsValue ds"
  by (induction k) (simp_all add: digitsValue_def)

lemma white_props:
  "isWhiteSpace c \<Longrightarrow> \<not> isDigit c \<and> c \<noteq> CHR ''-'' \<and> c \<noteq> CHR ''+'' \<and> c \<noteq> CHR ''.''
     \<and> c \<noteq> CHR '','' \<and> c \<noteq> CHR ''e'' \<and> c \<noteq> CHR ''E''"
  by (auto simp: isWhiteSpace_def isDigit_def)

lemma digit_props:
  "isDigit c \<Longrightarrow> \<not> isWhiteSpace c \<and> c \<noteq> CHR ''-'' \<and> c \<noteq> CHR ''+'' \<and> c \<noteq> CHR ''.'' \<and> c \<noteq> CHR '',''"
  by (auto simp: isWhiteSpace_def isDigit_def)

lemma separator_props:
  "isDecimalSeparator c \<Longrightarrow> \<not> isDigit c \<and> \<not> isWhiteSpace c \<and> c \<noteq> CHR ''-'' \<and> c \<noteq> CHR ''+''"
  by (auto simp: isDecimalSeparator_def)

subsection \<open>What \<^verbatim>\<open>parseFloat\<close> reads\<close>

lemma parseFloat_white: "list_all isWhiteSpace ws \<Longrightarrow> parseFloat (ws @ s) = parseFloat s"
  by (simp add: parseFloat_def dropWhile_append2 list_all_iff)

lemma parseFloat_minus:
  assumes "s = [] \<or> (\<not> isWhiteSpace (hd s) \<and> hd s \<noteq> CHR ''-'' \<and> hd s \<noteq> CHR ''+'')"
  shows "parseFloat (CHR ''-'' # s) = map_option uminus (parseFloat s)"
proof -
  have "dropWhile isWhiteSpace s = s"
    using assms by (auto intro: dropWhile_none)
  then show ?thesis
    using assms unfolding parseFloat_def by (auto simp: Let_def)
qed

lemma parseFloat_unsigned_int:
  assumes a: "list_all isDigit a" and ne: "a \<noteq> []"
    and r: "r = [] \<or> (\<not> isDigit (hd r) \<and> hd r \<noteq> CHR ''.'' \<and> hd r \<noteq> CHR ''e'' \<and> hd r \<noteq> CHR ''E'')"
  shows "parseFloat (a @ r) = Some (real (digitsValue a))"
proof -
  let ?s = "a @ r"
  have h: "?s \<noteq> []" "\<not> isWhiteSpace (hd ?s)" "hd ?s \<noteq> CHR ''-''" "hd ?s \<noteq> CHR ''+''"
    using a ne by (cases a; auto dest: digit_not_white)+
  then have d0: "dropWhile isWhiteSpace ?s = ?s"
    by (auto intro: dropWhile_none)
  have t1: "takeWhile isDigit ?s = a" and d1: "dropWhile isDigit ?s = r"
    using takeWhile_stop [OF a, of r] dropWhile_stop [OF a, of r] r by auto
  have e: "exponentPart r = 0"
    using r by (cases r) (auto simp: exponentPart_def)
  show ?thesis
    unfolding parseFloat_def d0 using h ne r
    by (auto simp add: Let_def t1 d1 e pow10_def simp del: append.simps hd_append2)
qed

lemma parseFloat_unsigned_frac:
  assumes a: "list_all isDigit a" and b: "list_all isDigit b"
    and r: "r = [] \<or> (\<not> isDigit (hd r) \<and> hd r \<noteq> CHR ''e'' \<and> hd r \<noteq> CHR ''E'')"
    and ne: "a \<noteq> [] \<or> b \<noteq> []"
  shows "parseFloat (a @ CHR ''.'' # b @ r)
         = Some (real (digitsValue a) + real (digitsValue b) / 10 ^ length b)"
proof -
  let ?s = "a @ CHR ''.'' # b @ r"
  have h: "?s \<noteq> []" "\<not> isWhiteSpace (hd ?s)" "hd ?s \<noteq> CHR ''-''" "hd ?s \<noteq> CHR ''+''"
    using a by (cases a; auto dest: digit_not_white)+
  then have d0: "dropWhile isWhiteSpace ?s = ?s"
    by (auto intro: dropWhile_none)
  have t1: "takeWhile isDigit ?s = a" and d1: "dropWhile isDigit ?s = CHR ''.'' # b @ r"
    using a by (simp_all add: takeWhile_stop dropWhile_stop)
  have t2: "takeWhile isDigit (b @ r) = b" and d2: "dropWhile isDigit (b @ r) = r"
    using takeWhile_stop [OF b, of r] dropWhile_stop [OF b, of r] r by auto
  have e: "exponentPart r = 0"
    using r by (cases r) (auto simp: exponentPart_def)
  show ?thesis
    unfolding parseFloat_def d0 using h ne
    by (simp add: Let_def t1 d1 t2 d2 e pow10_def del: append.simps hd_append2)
qed

subsection \<open>\<^verbatim>\<open>toFixed\<close> read back by \<^verbatim>\<open>parseFloat\<close>\<close>

lemma parseFloat_signed:
  assumes "s \<noteq> []" "isDigit (hd s)" "parseFloat s = Some v"
  shows "parseFloat ((if neg then [CHR ''-''] else []) @ s) = Some (if neg then - v else v)"
proof -
  have "\<not> isWhiteSpace (hd s) \<and> hd s \<noteq> CHR ''-'' \<and> hd s \<noteq> CHR ''+''"
    using assms(2) by (auto dest: digit_not_white)
  then show ?thesis
    using assms(3) by (simp add: parseFloat_minus)
qed

lemma fixedNumber_value:
  assumes "0 \<le> precision" "precision \<le> 100"
  shows "fixedNumber x precision = Inr (roundFixed x (nat precision))"
proof -
  define f where "f = nat precision"
  define n where "n = nat \<lfloor>\<bar>x\<bar> * 10 ^ f + 1 / 2\<rfloor>"
  define m where "m = padStart (f + 1) (CHR ''0'') (natToString n)"
  define a where "a = take (length m - f) m"
  define b where "b = drop (length m - f) m"
  define sg where "sg = (if x < 0 then [CHR ''-''] else [])"
  have tf: "toFixed x precision = Inr (sg @ (if f = 0 then m else a @ CHR ''.'' # b))"
    using assms by (simp add: toFixed_def Let_def f_def n_def m_def a_def b_def sg_def)
  have rf: "roundFixed x (nat precision) = (if x < 0 then - (real n / 10 ^ f) else real n / 10 ^ f)"
    by (simp add: roundFixed_def f_def n_def)
  have m_digits: "list_all isDigit m"
    using natToString_digits [of n] by (auto simp: m_def padStart_def list_all_iff)
  have m_val: "digitsValue m = n"
    by (simp add: m_def padStart_def digitsValue_zeros digitsValue_natToString)
  have m_len: "f + 1 \<le> length m"
    by (simp add: m_def padStart_def)
  then have m_ne: "m \<noteq> []" by auto
  have m_hd: "isDigit (hd m)"
    using m_digits m_ne by (cases m) auto
  have "parseFloat (sg @ (if f = 0 then m else a @ CHR ''.'' # b))
      = Some (if x < 0 then - (real n / 10 ^ f) else real n / 10 ^ f)"
  proof (cases "f = 0")
    case True
    have "parseFloat m = Some (real n)"
      using parseFloat_unsigned_int [OF m_digits m_ne, of "[]"] by (simp add: m_val)
    from parseFloat_signed [OF m_ne m_hd this, of "x < 0"] True show ?thesis
      by (simp add: sg_def)
  next
    case False
    have ab: "m = a @ b" by (simp add: a_def b_def)
    have a_ne: "a \<noteq> []" using m_len by (auto simp: a_def)
    have b_len: "length b = f" using m_len by (simp add: b_def)
    have a_digits: "list_all isDigit a" and b_digits: "list_all isDigit b"
      using m_digits unfolding ab by simp_all
    have a_hd: "isDigit (hd a)" using a_digits a_ne by (cases a) auto
    have "n = digitsValue a * 10 ^ f + digitsValue b"
      using m_val by (simp add: ab digitsValue_append b_len)
    then have "real n = real (digitsValue a * 10 ^ f + digitsValue b)"
      by (rule arg_cong)
    then have "real n = real (digitsValue a) * 10 ^ f + real (digitsValue b)"
      by simp
    then have val: "real (digitsValue a) + real (digitsValue b) / 10 ^ f = real n / 10 ^ f"
      by (simp add: field_simps)
    have "parseFloat (a @ CHR ''.'' # b) = Some (real n / 10 ^ f)"
      using parseFloat_unsigned_frac [OF a_digits b_digits, of "[]"] a_ne
      by (simp add: b_len val)
    moreover have "a @ CHR ''.'' # b \<noteq> []" "isDigit (hd (a @ CHR ''.'' # b))"
      using a_ne a_hd by auto
    ultimately have "parseFloat ((if x < 0 then [CHR ''-''] else []) @ a @ CHR ''.'' # b)
        = Some (if x < 0 then - (real n / 10 ^ f) else real n / 10 ^ f)"
      using parseFloat_signed by blast
    with False show ?thesis
      by (simp add: sg_def)
  qed
  then show ?thesis
    unfolding fixedNumber_def tf rf by simp
qed

lemma fixedNumber_range: "precision < 0 \<or> 100 < precision \<Longrightarrow> fixedNumber x precision = Inl RangeError"
  by (auto simp: fixedNumber_def toFixed_def)

section \<open>The angle codec\<close>

text \<open>Whenever the minutes of a value that is not negative are 59.5 or more, the minute
  field is written as 60 and the degrees stay as they are.\<close>

lemma formatAngle_sixty:
  assumes "0 \<le> d" "119 / 2 \<le> (d - real_of_int \<lfloor>d\<rfloor>) * 60"
  shows "formatAngle d
     = padStart 2 (CHR ''0'') (intToString \<lfloor>d\<rfloor>) @ degreeGlyph # ''60'' @ [minuteMark]"
proof -
  define mp where "mp = (d - real_of_int \<lfloor>d\<rfloor>) * 60"
  have "d - real_of_int \<lfloor>d\<rfloor> < 1" by linarith
  then have "mp < 60" by (simp add: mp_def)
  with assms(2) have r: "round mp = 60"
    unfolding round_def mp_def [symmetric] by (intro floor_unique) simp_all
  have i: "intToString 60 = ''60''" by code_simp
  have a: "\<bar>d\<bar> = d" and n: "(d < 0) = False" using assms(1) by simp_all
  show ?thesis
    unfolding formatAngle_def Let_def a n if_False mp_def [symmetric] r i
    by (simp add: padStart_def)
qed

text \<open>
  Claim C7. There is a decimal-degree value whose minute field is written as 60 and not
  carried into the degrees: \<open>30.995\<close> degrees is 30 degrees and 59.7 minutes, the minutes
  round to 60, and \<^verbatim>\<open>formatAngle\<close> writes \<^verbatim>\<open>30\<degree>60'\<close>.
\<close>

theorem formatAngle_minute_sixty:
  "formatAngle (6199 / 200) = ''30'' @ [degreeGlyph] @ ''60'' @ [minuteMark]"
  by code_simp

subsection \<open>Decoding what the encoder writes\<close>

lemma degreeGlyph_props: "\<not> isDigit degreeGlyph \<and> \<not> isWhiteSpace degreeGlyph \<and> degreeGlyph \<noteq> CHR ''-''"
  by (simp add: degreeGlyph_def isDigit_def isWhiteSpace_def)

lemma minuteMark_props: "\<not> isDigit minuteMark \<and> \<not> isWhiteSpace minuteMark"
  by (simp add: minuteMark_def isDigit_def isWhiteSpace_def)

lemma digit_not_separator: "isDigit c \<Longrightarrow> \<not> isDmsSeparator c"
  by (auto simp: isDmsSeparator_def degreeGlyph_def isDigit_def isWhiteSpace_def)

lemma padded_digits:
  "list_all isDigit (padStart 2 (CHR ''0'') (natToString n))
   \<and> padStart 2 (CHR ''0'') (natToString n) \<noteq> []
   \<and> digitsValue (padStart 2 (CHR ''0'') (natToString n)) = n"
  using natToString_digits [of n] natToString_nonempty [of n]
  by (auto simp: padStart_def list_all_iff digitsValue_zeros digitsValue_natToString)

lemma parseInt10_digits:
  assumes "list_all isDigit a" "a \<noteq> []"
  shows "parseInt10 a = Some (int (digitsValue a))"
proof -
  have h: "isDigit (hd a)" using assms by (cases a) auto
  then have p: "\<not> isWhiteSpace (hd a)" "hd a \<noteq> CHR ''-''" "hd a \<noteq> CHR ''+''"
    by (auto dest: digit_props)
  have d: "dropWhile isWhiteSpace a = a"
    using p(1) by (auto intro: dropWhile_none)
  have t: "takeWhile isDigit a = a"
    using assms(1) by (simp add: list_all_iff)
  have c: "(a \<noteq> [] \<and> hd a = CHR ''-'') = False"
    "(a \<noteq> [] \<and> (hd a = CHR ''-'' \<or> hd a = CHR ''+'')) = False"
    using p by simp_all
  show ?thesis
    unfolding parseInt10_def Let_def d c if_False t using assms(2) by simp
qed

lemma parseInt10_minus_digits:
  assumes "list_all isDigit a" "a \<noteq> []"
  shows "parseInt10 (CHR ''-'' # a) = Some (- int (digitsValue a))"
proof -
  have d: "dropWhile isWhiteSpace (CHR ''-'' # a) = CHR ''-'' # a"
    by simp
  have t: "takeWhile isDigit a = a"
    using assms(1) by (simp add: list_all_iff)
  have c: "(CHR ''-'' # a \<noteq> [] \<and> hd (CHR ''-'' # a) = CHR ''-'') = True"
    "(CHR ''-'' # a \<noteq> [] \<and> (hd (CHR ''-'' # a) = CHR ''-'' \<or> hd (CHR ''-'' # a) = CHR ''+''))
      = True"
    by simp_all
  show ?thesis
    unfolding parseInt10_def Let_def d c if_True
    unfolding list.sel t
    using assms(2) by simp
qed

lemma dmsRegex_encoded:
  assumes "list_all isDigit a" "a \<noteq> []" "list_all isDigit b" "b \<noteq> []"
  shows "dmsRegex (a @ degreeGlyph # b @ [minuteMark]) = Some (a, b)"
    and "dmsRegex (CHR ''-'' # a @ degreeGlyph # b @ [minuteMark]) = Some (CHR ''-'' # a, b)"
proof -
  let ?r = "degreeGlyph # b @ [minuteMark]"
  have ha: "isDigit (hd a)" using assms(1,2) by (cases a) auto
  have hb: "isDigit (hd b)" using assms(3,4) by (cases b) auto
  have t1: "takeWhile isDigit (a @ ?r) = a" and d1: "dropWhile isDigit (a @ ?r) = ?r"
    using assms(1) degreeGlyph_props by (simp_all add: takeWhile_stop dropWhile_stop)
  have t2: "takeWhile isDmsSeparator ?r = [degreeGlyph]"
    and d2: "dropWhile isDmsSeparator ?r = b @ [minuteMark]"
    using digit_not_separator [OF hb] assms(4)
    by (cases b; simp add: isDmsSeparator_def)+
  have t3: "takeWhile isDigit (b @ [minuteMark]) = b"
    using assms(3) minuteMark_props by (simp add: takeWhile_stop)
  have c1: "(a @ ?r \<noteq> [] \<and> hd (a @ ?r) = CHR ''-'') = False"
    using assms(2) ha by (auto dest: digit_props)
  have c2: "(CHR ''-'' # a @ ?r \<noteq> [] \<and> hd (CHR ''-'' # a @ ?r) = CHR ''-'') = True"
    by simp
  show "dmsRegex (a @ ?r) = Some (a, b)"
    unfolding dmsRegex_def Let_def c1 if_False t1 d1 t2 d2 t3 using assms(2,4) by simp
  show "dmsRegex (CHR ''-'' # a @ ?r) = Some (CHR ''-'' # a, b)"
    unfolding dmsRegex_def Let_def c2 if_True
    unfolding list.sel t1 d1 t2 d2 t3
    using assms(2,4) by simp
qed

lemma formatAngle_nonneg:
  fixes deg m :: nat
  assumes "m < 60"
  shows "formatAngle (real deg + real m / 60)
     = padStart 2 (CHR ''0'') (natToString deg) @ degreeGlyph
         # padStart 2 (CHR ''0'') (natToString m) @ [minuteMark]"
proof -
  let ?d = "real deg + real m / 60"
  have nn: "\<not> ?d < 0" by (simp add: add_nonneg_nonneg)
  have ab: "\<bar>?d\<bar> = ?d" by (simp add: add_nonneg_nonneg)
  have "real m / 60 < 1" using assms by simp
  then have fl: "\<lfloor>?d\<rfloor> = int deg"
    by (intro floor_unique) simp_all
  have mp: "(?d - real_of_int (int deg)) * 60 = real m" by simp
  have rd: "round (real m) = int m"
    by (metis of_int_of_nat_eq round_of_int)
  show ?thesis
    unfolding formatAngle_def Let_def ab fl mp rd using nn
    by (simp add: intToString_def)
qed

lemma formatAngle_neg:
  fixes deg m :: nat
  assumes "m < 60" "0 < deg \<or> 0 < m"
  shows "formatAngle (- (real deg + real m / 60))
     = CHR ''-'' # padStart 2 (CHR ''0'') (natToString deg) @ degreeGlyph
         # padStart 2 (CHR ''0'') (natToString m) @ [minuteMark]"
proof -
  let ?d = "real deg + real m / 60"
  have pos: "0 < ?d" using assms(2) by (auto intro: add_nonneg_pos add_pos_nonneg)
  then have nn: "- ?d < 0" by simp
  have ab: "\<bar>- ?d\<bar> = ?d" using pos by simp
  have "real m / 60 < 1" using assms by simp
  then have fl: "\<lfloor>?d\<rfloor> = int deg"
    by (intro floor_unique) simp_all
  have mp: "(?d - real_of_int (int deg)) * 60 = real m" by simp
  have rd: "round (real m) = int m"
    by (metis of_int_of_nat_eq round_of_int)
  show ?thesis
    unfolding formatAngle_def Let_def ab fl mp rd using nn
    by (simp add: intToString_def)
qed

text \<open>The round trip gives back every value that is not negative.\<close>

lemma angle_roundtrip_nonneg:
  fixes deg m :: nat
  assumes "m < 60"
  shows "parseAngleToDecimal (JStr (formatAngle (real deg + real m / 60)))
     = Some (real deg + real m / 60)"
proof -
  let ?a = "padStart 2 (CHR ''0'') (natToString deg)"
  let ?b = "padStart 2 (CHR ''0'') (natToString m)"
  note a = padded_digits [of deg] and b = padded_digits [of m]
  have r: "dmsRegex (?a @ degreeGlyph # ?b @ [minuteMark]) = Some (?a, ?b)"
    using dmsRegex_encoded(1) a b by blast
  have pa: "parseInt10 ?a = Some (int deg)" and pb: "parseInt10 ?b = Some (int m)"
    using parseInt10_digits a b by auto
  show ?thesis
    unfolding formatAngle_nonneg [OF assms] parseAngleToDecimal_def
    by (simp add: r pa pb)
qed

text \<open>A negative value with a degree part comes back positive, with the minutes taken off.\<close>

lemma angle_roundtrip_neg:
  fixes deg m :: nat
  assumes "m < 60" "0 < deg"
  shows "parseAngleToDecimal (JStr (formatAngle (- (real deg + real m / 60))))
     = Some (real deg - real m / 60)"
proof -
  let ?a = "padStart 2 (CHR ''0'') (natToString deg)"
  let ?b = "padStart 2 (CHR ''0'') (natToString m)"
  note a = padded_digits [of deg] and b = padded_digits [of m]
  have r: "dmsRegex (CHR ''-'' # ?a @ degreeGlyph # ?b @ [minuteMark]) = Some (CHR ''-'' # ?a, ?b)"
    using dmsRegex_encoded(2) a b by blast
  have pa: "parseInt10 (CHR ''-'' # ?a) = Some (- int deg)" and pb: "parseInt10 ?b = Some (int m)"
    using parseInt10_minus_digits parseInt10_digits a b by auto
  have f: "formatAngle (- (real deg + real m / 60))
      = CHR ''-'' # ?a @ degreeGlyph # ?b @ [minuteMark]"
    using formatAngle_neg [of m deg] assms by simp
  show ?thesis
    unfolding f parseAngleToDecimal_def using assms(2)
    by (simp add: r pa pb)
qed


text \<open>
  Claim C3, at a negative value. \<open>-30.25\<close> degrees is encoded as \<^verbatim>\<open>-30\<degree>15'\<close>, and decoding
  that text gives \<open>29.75\<close>: \<^verbatim>\<open>parseAngleToDecimal\<close> multiplies only the minutes by the
  sign, \<^verbatim>\<open>Math.abs(deg) + (min / 60) * sign\<close>, so the round trip does not give back a
  negative value.
\<close>

theorem angle_roundtrip_negative:
  "formatAngle (- (121 / 4)) = ''-30'' @ [degreeGlyph] @ ''15'' @ [minuteMark]
   \<and> parseAngleToDecimal (JStr (formatAngle (- (121 / 4)))) = Some (119 / 4)"
  by code_simp

section \<open>The in-spec generator\<close>

text \<open>Rounding moves a value by at most half a unit of the last place.\<close>

lemma roundFixed_near: "\<bar>roundFixed x f - x\<bar> \<le> 1 / (2 * 10 ^ f)"
proof -
  define u :: real where "u = 10 ^ f"
  define a where "a = \<bar>x\<bar> * u"
  define n where "n = nat \<lfloor>a + 1 / 2\<rfloor>"
  have u: "0 < u" by (simp add: u_def)
  have a: "0 \<le> a" using u by (simp add: a_def)
  then have "0 \<le> \<lfloor>a + 1 / 2\<rfloor>" by simp
  then have n: "real n = real_of_int \<lfloor>a + 1 / 2\<rfloor>" by (simp add: n_def)
  have b: "real n \<le> a + 1 / 2" "a + 1 / 2 < real n + 1"
    unfolding n by linarith+
  have "real n / u \<le> (a + 1 / 2) / u"
    using b(1) u by (intro divide_right_mono) simp_all
  moreover have "(a + 1 / 2) / u = \<bar>x\<bar> + 1 / (2 * u)"
    using u by (simp add: a_def add_divide_distrib)
  ultimately have lo: "real n / u \<le> \<bar>x\<bar> + 1 / (2 * u)" by simp
  have "a - 1 / 2 \<le> real n" using b(2) by linarith
  then have "(a - 1 / 2) / u \<le> real n / u"
    using u by (intro divide_right_mono) simp_all
  moreover have "(a - 1 / 2) / u = \<bar>x\<bar> - 1 / (2 * u)"
    using u by (simp add: a_def diff_divide_distrib)
  ultimately have hi: "\<bar>x\<bar> - 1 / (2 * u) \<le> real n / u" by simp
  have "roundFixed x f = (if x < 0 then - (real n / u) else real n / u)"
    by (simp add: roundFixed_def n_def a_def u_def)
  with lo hi show ?thesis
    unfolding u_def [symmetric] by (cases "x < 0") (simp_all add: abs_if split: if_splits)
qed

text \<open>A rounded value is its own rounding.\<close>

lemma roundFixed_idem: "roundFixed (roundFixed x f) f = roundFixed x f"
proof -
  define u :: real where "u = 10 ^ f"
  define n where "n = nat \<lfloor>\<bar>x\<bar> * u + 1 / 2\<rfloor>"
  have u: "0 < u" by (simp add: u_def)
  have y: "roundFixed x f = (if x < 0 then - (real n / u) else real n / u)"
    by (simp add: roundFixed_def n_def u_def)
  have fl: "nat \<lfloor>real n + 1 / 2\<rfloor> = n"
    by (simp add: floor_unique)
  have pos: "roundFixed (real n / u) f = real n / u"
  proof -
    have "\<not> real n / u < 0" using u by (simp add: not_less)
    moreover have "\<bar>real n / u\<bar> * u = real n" using u by simp
    ultimately show ?thesis
      unfolding roundFixed_def u_def [symmetric] by (simp add: fl)
  qed
  have neg: "roundFixed (- (real n / u)) f = - (real n / u)" if "n \<noteq> 0"
  proof -
    have "- (real n / u) < 0" using u that by simp
    moreover have "\<bar>- (real n / u)\<bar> * u = real n" using u by simp
    ultimately show ?thesis
      unfolding roundFixed_def u_def [symmetric] by (simp add: fl)
  qed
  show ?thesis
  proof (cases "x < 0 \<and> n \<noteq> 0")
    case True
    with neg show ?thesis by (simp add: y)
  next
    case False
    then have "roundFixed x f = real n / u" by (auto simp: y)
    with pos show ?thesis by simp
  qed
qed

text \<open>When the window is at least ten units of the last place wide, the in-spec generator
  stays in the window.\<close>

lemma randomizeInSpec_wide_window:
  assumes "0 \<le> precision" "precision \<le> 100"
    and "0 \<le> rnd pos" "rnd pos < 1"
    and "10 / 10 ^ nat precision \<le> mx - mn"
  shows "\<exists>v. randomizeInSpec rnd pos mn mx precision = Inr (v, Suc pos)
     \<and> mn \<le> v \<and> v \<le> mx \<and> fixedNumber v precision = Inr v"
proof -
  define t where "t = mx - mn"
  define lo where "lo = mn + t * (5 / 100)"
  define hi where "hi = mx - t * (5 / 100)"
  define x where "x = rnd pos * (hi - lo) + lo"
  define f where "f = nat precision"
  have "(0 :: real) < 10 / 10 ^ f" by simp
  with assms(5) have t: "0 < t" unfolding t_def f_def by linarith
  have w: "0 < hi - lo"
    using t by (simp add: t_def lo_def hi_def)
  have r: "randomizeInSpec rnd pos mn mx precision = Inr (roundFixed x f, Suc pos)"
    using t w assms(1,2)
    unfolding randomizeInSpec_def Let_def t_def [symmetric] lo_def [symmetric]
      hi_def [symmetric] x_def [symmetric]
    by (simp add: fixedNumber_value f_def)
  have xlo: "lo \<le> x"
    unfolding x_def using assms(3) w by simp
  have "rnd pos * (hi - lo) \<le> 1 * (hi - lo)"
    using assms(4) w by (intro mult_right_mono) simp_all
  then have xhi: "x \<le> hi"
    unfolding x_def by simp
  have "1 / (2 * 10 ^ f) = (10 / 10 ^ f) * (5 / 100 :: real)" by simp
  also have "\<dots> \<le> t * (5 / 100)"
    using assms(5) by (simp add: t_def f_def)
  finally have h: "1 / (2 * 10 ^ f) \<le> t * (5 / 100)" .
  from roundFixed_near [of x f] h xlo xhi
  have "mn \<le> roundFixed x f" "roundFixed x f \<le> mx"
    unfolding lo_def hi_def by linarith+
  moreover have "fixedNumber (roundFixed x f) precision = Inr (roundFixed x f)"
    using assms(1,2) by (simp add: fixedNumber_value roundFixed_idem f_def)
  ultimately show ?thesis using r by simp
qed

text \<open>With precision 0 the result is an integer, and no integer lies in \<open>[30.25, 30.75]\<close>.\<close>

lemma roundFixed_zero_int: "\<exists>n :: nat. roundFixed x 0 = real n \<or> roundFixed x 0 = - real n"
proof -
  define n where "n = nat \<lfloor>\<bar>x\<bar> * 10 ^ 0 + 1 / 2\<rfloor>"
  have "roundFixed x 0 = (if x < 0 then - (real n / 10 ^ 0) else real n / 10 ^ 0)"
    unfolding roundFixed_def n_def ..
  then have "roundFixed x 0 = real n \<or> roundFixed x 0 = - real n"
    by (cases "x < 0") simp_all
  then show ?thesis ..
qed

lemma integer_outside_window:
  fixes n :: nat
  shows "(real n < 121 / 4 \<or> 123 / 4 < real n) \<and> (- real n < 121 / 4)"
proof (cases "n \<le> 30")
  case True
  then have "real n \<le> 30" by simp
  then show ?thesis by simp
next
  case False
  then have "31 \<le> n" by simp
  then have "31 \<le> real n" by simp
  then show ?thesis by simp
qed

text \<open>
  Claim C1, at the window \<open>[30.25, 30.75]\<close> with precision 0, the precision of an angular
  row. Whatever the draw is, the value returned lies outside the window; with the draw
  \<open>0.25\<close> the sample \<open>30.3875\<close> of the safe sub-range is rounded to \<open>30\<close>, below the lower
  bound.
\<close>

theorem randomizeInSpec_leaves_window:
  "(\<exists>v. randomizeInSpec rnd pos (121 / 4) (123 / 4) 0 = Inr (v, Suc pos)
        \<and> (v < 121 / 4 \<or> 123 / 4 < v))
   \<and> randomizeInSpec (fixedDraws (1 / 4)) 0 (121 / 4) (123 / 4) 0 = Inr (30, 1)
   \<and> (30 :: real) < 121 / 4"
proof -
  define x where "x = rnd pos * (9 / 20) + 1211 / 40"
  have r: "randomizeInSpec rnd pos (121 / 4) (123 / 4) 0 = Inr (roundFixed x 0, Suc pos)"
    by (simp add: randomizeInSpec_def Let_def fixedNumber_value x_def)
  obtain n :: nat where "roundFixed x 0 = real n \<or> roundFixed x 0 = - real n"
    using roundFixed_zero_int by blast
  with integer_outside_window [of n]
  have "roundFixed x 0 < 121 / 4 \<or> 123 / 4 < roundFixed x 0" by auto
  with r have g: "\<exists>v. randomizeInSpec rnd pos (121 / 4) (123 / 4) 0 = Inr (v, Suc pos)
      \<and> (v < 121 / 4 \<or> 123 / 4 < v)" by blast
  have c: "randomizeInSpec (fixedDraws (1 / 4)) 0 (121 / 4) (123 / 4) 0 = Inr (30, 1)"
    by code_simp
  from g c show ?thesis by simp
qed

section \<open>The out-of-spec generator\<close>

lemma outSpecLoop_accepted:
  "outSpecLoop rnd ov mn mx p ang st a pos = Inr (v, a', pos') \<Longrightarrow> v \<noteq> ov
   \<Longrightarrow> acceptCandidate ov mn mx a' v"
proof (induction rnd ov mn mx p ang st a pos rule: outSpecLoop.induct)
  case (1 rnd ov mn mx p ang st a pos)
  from "1.prems" show ?case
    by (subst (asm) outSpecLoop.simps) (auto split: if_splits sum.splits intro: "1.IH")
qed

lemma randomizeOutSpec_of_run:
  "randomizeOutSpecRun rnd pos ov mn mx p ang = Inr (v, a, pos')
   \<Longrightarrow> randomizeOutSpec rnd pos ov mn mx p ang = Inr (v, pos')"
  by (simp add: randomizeOutSpec_def)

text \<open>
  Claim C2. For an original value outside the window, a returned value that differs from
  the original is still outside the window, and when the loop is left with
  \<^verbatim>\<open>attempts\<close> at most 20 it lies on the same side as the original.
\<close>

theorem randomizeOutSpec_stays_out:
  assumes "originalValue > max' \<or> originalValue < min'"
    and "randomizeOutSpecRun rnd pos originalValue min' max' precision isAngle
           = Inr (v, attempts, pos')"
    and "v \<noteq> originalValue"
  shows "randomizeOutSpec rnd pos originalValue min' max' precision isAngle = Inr (v, pos')
     \<and> (v > max' \<or> v < min')
     \<and> (attempts \<le> 20 \<longrightarrow>
          (originalValue > max' \<and> v > max') \<or> (originalValue < min' \<and> v < min'))"
proof -
  have "acceptCandidate originalValue min' max' attempts v"
    using assms(2,3) unfolding randomizeOutSpecRun_def by (rule outSpecLoop_accepted)
  then show ?thesis
    using randomizeOutSpec_of_run [OF assms(2)] by (auto simp: acceptCandidate_def Let_def)
qed

theorem randomizeOutSpec_stays_out_witness:
  "randomizeOutSpecRun (fixedDraws (9 / 10)) 0 16 10 15 2 False = Inr (1603 / 100, 0, 1)
   \<and> randomizeOutSpec (fixedDraws (9 / 10)) 0 16 10 15 2 False = Inr (1603 / 100, 1)
   \<and> (1603 / 100 :: real) > 15"
proof -
  have run: "randomizeOutSpecRun (fixedDraws (9 / 10)) 0 16 10 15 2 False
      = Inr (1603 / 100, 0, 1)"
    by code_simp
  have "(16 :: real) > 15 \<or> (16 :: real) < 10" by simp
  from randomizeOutSpec_stays_out [OF this run] run show ?thesis by simp
qed

lemma drawCandidate_total:
  assumes "isAngle \<or> (0 \<le> precision \<and> precision \<le> 100)"
  shows "\<exists>c. drawCandidate r ov st precision isAngle = Inr c"
  using assms by (auto simp: drawCandidate_def Let_def fixedNumber_value)

lemma outSpecLoop_exhausted:
  assumes "a \<le> 50"
    and "\<And>i. a \<le> i \<Longrightarrow> i < 50 \<Longrightarrow>
           \<exists>c. drawCandidate (rnd (pos + (i - a))) ov st p ang = Inr c
             \<and> \<not> acceptCandidate ov mn mx i c"
  shows "outSpecLoop rnd ov mn mx p ang st a pos = Inr (ov, 50, pos + (50 - a))"
  using assms
proof (induction rnd ov mn mx p ang st a pos rule: outSpecLoop.induct)
  case (1 rnd ov mn mx p ang st a pos)
  show ?case
  proof (cases "a < 50")
    case False
    with "1.prems"(1) have "a = 50" by simp
    then show ?thesis by (subst outSpecLoop.simps) simp
  next
    case True
    from "1.prems"(2) [of a] True obtain c where
      c: "drawCandidate (rnd pos) ov st p ang = Inr c" "\<not> acceptCandidate ov mn mx a c"
      by auto
    have "outSpecLoop rnd ov mn mx p ang st (Suc a) (Suc pos)
        = Inr (ov, 50, Suc pos + (50 - Suc a))"
    proof (rule "1.IH" [OF True c(1) c(2)])
      show "Suc a \<le> 50" using True by simp
    next
      fix i assume i: "Suc a \<le> i" "i < 50"
      then have "pos + (i - a) = Suc pos + (i - Suc a)" by simp
      with "1.prems"(2) [of i] i
      show "\<exists>c. drawCandidate (rnd (Suc pos + (i - Suc a))) ov st p ang = Inr c
          \<and> \<not> acceptCandidate ov mn mx i c"
        by simp
    qed
    with True c show ?thesis
      by (subst outSpecLoop.simps) simp
  qed
qed

text \<open>
  Claim C6. When none of the 50 attempts gives a candidate that is accepted, the original
  value is returned unchanged, no error is raised, and 50 draws have been used. This holds
  for every original value, window and angular flag, and for every precision that is a
  number of decimal places \<^verbatim>\<open>toFixed\<close> takes, 0 to 100, among them the 0 and the 2 that the
  callers pass (an angle is not rounded, so there the precision is free).
\<close>

theorem randomizeOutSpec_exhausted:
  assumes "isAngle \<or> (0 \<le> precision \<and> precision \<le> 100)"
    and "\<forall>i<50. \<forall>c.
           drawCandidate (rnd (pos + i)) originalValue (stepOf precision isAngle) precision isAngle
             = Inr c
           \<longrightarrow> \<not> acceptCandidate originalValue min' max' i c"
  shows "randomizeOutSpec rnd pos originalValue min' max' precision isAngle
           = Inr (originalValue, pos + 50)"
proof -
  have "outSpecLoop rnd originalValue min' max' precision isAngle (stepOf precision isAngle) 0 pos
      = Inr (originalValue, 50, pos + (50 - 0))"
  proof (rule outSpecLoop_exhausted)
    fix i :: nat assume "i < 50"
    moreover obtain c where
      "drawCandidate (rnd (pos + i)) originalValue (stepOf precision isAngle) precision isAngle
         = Inr c"
      using drawCandidate_total [OF assms(1)] by blast
    ultimately show "\<exists>c. drawCandidate (rnd (pos + (i - 0))) originalValue
          (stepOf precision isAngle) precision isAngle = Inr c
        \<and> \<not> acceptCandidate originalValue min' max' i c"
      using assms(2) by auto
  qed simp
  then show ?thesis
    by (simp add: randomizeOutSpec_def randomizeOutSpecRun_def)
qed

theorem randomizeOutSpec_exhausted_witness:
  "randomizeOutSpec (fixedDraws 0) 0 (1501 / 100) 10 15 2 False = Inr (1501 / 100, 50)
   \<and> (1501 / 100 :: real) > 15"
proof -
  have c: "drawCandidate 0 (1501 / 100) (stepOf 2 False) 2 False = Inr (749 / 50)"
    by code_simp
  have "\<forall>i<50. \<forall>c. drawCandidate (fixedDraws 0 (0 + i)) (1501 / 100) (stepOf 2 False) 2 False
        = Inr c
      \<longrightarrow> \<not> acceptCandidate (1501 / 100) 10 15 i c"
    by (simp add: fixedDraws_def c acceptCandidate_def)
  moreover have "False \<or> ((0 :: int) \<le> 2 \<and> (2 :: int) \<le> 100)" by simp
  ultimately show ?thesis
    using randomizeOutSpec_exhausted [of False 2 "fixedDraws 0" 0 "1501 / 100" 10 15] by simp
qed

text \<open>A precision that \<^verbatim>\<open>toFixed\<close> does not take, which the callers never pass, makes a call
  for a value that is not an angle raise on its first attempt.\<close>

lemma randomizeOutSpec_range_error:
  "drawCandidate 0 5 (stepOf 101 False) 101 False = Inl RangeError
   \<and> randomizeOutSpec (fixedDraws 0) 0 5 0 1 101 False = Inl RangeError"
  by code_simp

section \<open>The tolerance window\<close>

lemma latch_stats_update: "latch (st\<lparr>stats := x\<rparr>) r = (latch st r)\<lparr>stats := x\<rparr>"
  by (simp add: latch_def Let_def split: option.splits)

lemma latch_currentMax:
  "currentMax (latch st r) = (case rowMax r of Some v \<Rightarrow> Some v | None \<Rightarrow> currentMax st)"
  by (simp add: latch_def Let_def split: option.splits)

lemma latch_currentMin:
  "currentMin (latch st r) = (case rowMin r of Some v \<Rightarrow> Some v | None \<Rightarrow> currentMin st)"
  by (simp add: latch_def Let_def split: option.splits)

lemma latch_frame: "stats (latch st r) = stats st \<and> nextDraw (latch st r) = nextDraw st"
  by (simp add: latch_def Let_def split: option.splits)

text \<open>The window a row leaves in the state is the one that was in force for the row.\<close>

lemma processRow_window:
  assumes "processRow rnd cols st r = Inr (r', st')"
  shows "currentMax st' = currentMax (latch st r) \<and> currentMin st' = currentMin (latch st r)"
  using assms
  by (auto simp: processRow_def Let_def latch_stats_update bindE_def
      split: option.splits sum.splits prod.splits)

text \<open>With both bounds latched, the row callback runs the cell rewriter over the target
  columns with the latched window and the row's own classification.\<close>

lemma processRow_resolved:
  assumes "currentMax (latch st r) = Some cmax" "currentMin (latch st r) = Some cmin"
  shows "processRow rnd cols st r
     = bindE (forEachE (processCell rnd (rowIsAngle r) cmin cmax)
                (r, (stats st)\<lparr>totalRows := totalRows (stats st) + 1\<rparr>, nextDraw st) cols)
         (\<lambda>(r', stats', pos'). Inr (r', (latch st r)\<lparr>stats := stats', nextDraw := pos'\<rparr>))"
  using assms latch_frame [of st r]
  by (simp add: processRow_def Let_def latch_stats_update)

text \<open>
  Claim C10. When either latched bound is still null at a row, the row is returned as it
  was, and of the state only \<^verbatim>\<open>totalRows\<close> (one more) and the latched bounds change: no target
  cell is rewritten, no other counter moves and no draw is used.
\<close>

theorem processRow_needs_both_bounds:
  assumes "currentMax (latch st r) = None \<or> currentMin (latch st r) = None"
  shows "processRow rnd excelTargetCols st r
     = Inr (r, (latch st r)\<lparr>stats := (stats st)\<lparr>totalRows := totalRows (stats st) + 1\<rparr>\<rparr>)"
  using assms
  by (auto simp: processRow_def Let_def latch_stats_update split: option.splits)

section \<open>Blank cells\<close>

lemma white_not_digit: "isWhiteSpace c \<Longrightarrow> \<not> isDigit c"
  using digit_not_white by blast

lemma white_not_minus: "isWhiteSpace c \<Longrightarrow> c \<noteq> CHR ''-''"
  by auto

lemma trim_white: "list_all isWhiteSpace s \<Longrightarrow> trim s = []"
proof -
  assume "list_all isWhiteSpace s"
  then have d: "dropWhile isWhiteSpace s = []"
    by (simp add: list_all_iff)
  show ?thesis unfolding trim_def d by simp
qed

lemma parseNumber_white: "list_all isWhiteSpace s \<Longrightarrow> parseNumber (JStr s) = None"
  by (simp add: parseNumber_def trim_white)

lemma dmsRegex_white: "list_all isWhiteSpace s \<Longrightarrow> dmsRegex s = None"
proof (cases s)
  case Nil
  then show ?thesis by (simp add: dmsRegex_def)
next
  case (Cons c cs)
  assume "list_all isWhiteSpace s"
  with Cons have "c \<noteq> CHR ''-''" "\<not> isDigit c"
    by (auto dest: white_not_digit)
  with Cons show ?thesis by (simp add: dmsRegex_def)
qed

lemma parseAngleToDecimal_white: "list_all isWhiteSpace s \<Longrightarrow> parseAngleToDecimal (JStr s) = None"
  by (simp add: parseAngleToDecimal_def dmsRegex_white parseNumber_white)

lemma tokenAt_white: "list_all isWhiteSpace s \<Longrightarrow> tokenAt isAngle s = None"
proof (cases s)
  case Nil
  then show ?thesis by (simp add: tokenAt_def linearToken_def angleToken_def)
next
  case (Cons c cs)
  assume "list_all isWhiteSpace s"
  with Cons have "c \<noteq> CHR ''-''" "\<not> isDigit c"
    by (auto dest: white_not_digit)
  with Cons show ?thesis by (simp add: tokenAt_def linearToken_def angleToken_def)
qed

lemma patternTest_white: "list_all isWhiteSpace s \<Longrightarrow> \<not> patternTest isAngle s"
proof (induction s)
  case Nil
  then show ?case by simp
next
  case (Cons c cs)
  from Cons.prems have "tokenAt isAngle (c # cs) = None" by (rule tokenAt_white)
  with Cons show ?case by simp
qed

text \<open>
  Claim C9. A target cell whose value is absent, the empty text or a text of white space
  only is left as it is, in an angular and in a linear row alike: the row, every counter
  (\<^verbatim>\<open>processedCells\<close> among them) and the index of the next draw come back unchanged.
\<close>

theorem processCell_blank:
  assumes "getCellValue (cvalue (getCell r colIndex)) = JNull
     \<or> (\<exists>s. getCellValue (cvalue (getCell r colIndex)) = JStr s \<and> list_all isWhiteSpace s)"
  shows "processCell rnd isAngle cmin cmax (r, sts, pos) colIndex = Inr (r, sts, pos)"
  using assms
proof
  assume "getCellValue (cvalue (getCell r colIndex)) = JNull"
  then show ?thesis by (simp add: processCell_def Let_def)
next
  assume "\<exists>s. getCellValue (cvalue (getCell r colIndex)) = JStr s \<and> list_all isWhiteSpace s"
  then obtain s where s: "getCellValue (cvalue (getCell r colIndex)) = JStr s"
    and w: "list_all isWhiteSpace s" by blast
  show ?thesis
    by (simp add: processCell_def Let_def s parseNumber_white [OF w]
        parseAngleToDecimal_white [OF w] caseComplexString_def patternTest_white [OF w])
qed

section \<open>No raise in the rewriter\<close>

lemma toFixed_total: "0 \<le> digits \<Longrightarrow> digits \<le> 100 \<Longrightarrow> \<exists>t. toFixed x digits = Inr t"
  by (simp add: toFixed_def Let_def)

lemma outSpecLoop_total:
  assumes "ang \<or> (0 \<le> p \<and> p \<le> 100)"
  shows "\<exists>res. outSpecLoop rnd ov mn mx p ang st a pos = Inr res"
  using assms
proof (induction rnd ov mn mx p ang st a pos rule: outSpecLoop.induct)
  case (1 rnd ov mn mx p ang st a pos)
  note ok = "1.prems"
  show ?case
  proof (cases "a < 50")
    case False
    then show ?thesis by (subst outSpecLoop.simps) simp
  next
    case True
    obtain c where c: "drawCandidate (rnd pos) ov st p ang = Inr c"
      using drawCandidate_total [OF ok] by blast
    show ?thesis
    proof (cases "acceptCandidate ov mn mx a c")
      case True
      with \<open>a < 50\<close> c show ?thesis by (subst outSpecLoop.simps) simp
    next
      case False
      with "1.IH" [OF True c False ok] True c show ?thesis
        by (subst outSpecLoop.simps) simp
    qed
  qed
qed

lemma randomizeOutSpec_total:
  assumes "ang \<or> (0 \<le> p \<and> p \<le> 100)"
  shows "\<exists>v pos'. randomizeOutSpec rnd pos ov mn mx p ang = Inr (v, pos')"
proof -
  obtain v a pos' where
    "outSpecLoop rnd ov mn mx p ang (stepOf p ang) 0 pos = Inr (v, a, pos')"
    using outSpecLoop_total [OF assms] by (metis prod_cases3)
  then show ?thesis
    by (simp add: randomizeOutSpec_def randomizeOutSpecRun_def)
qed

lemma randomizeInSpec_total:
  assumes "0 \<le> p" "p \<le> 100"
  shows "\<exists>v pos'. randomizeInSpec rnd pos mn mx p = Inr (v, pos')"
  using assms by (simp add: randomizeInSpec_def Let_def fixedNumber_value)

text \<open>Rewriting one value counts it once, as out of spec or as in spec, and changes no
  other counter.\<close>

lemma regenerate_total:
  assumes "0 \<le> p" "p \<le> 100"
  shows "\<exists>newVal sts' pos'. regenerate rnd ang p cmin cmax v (sts, pos) = Inr (newVal, sts', pos')
     \<and> processedCells sts' = processedCells sts \<and> totalRows sts' = totalRows sts
     \<and> outOfSpecCount sts' + inSpecCount sts' = outOfSpecCount sts + inSpecCount sts + 1"
proof (cases "v > cmax \<or> v < cmin")
  case True
  obtain nv pos' where "randomizeOutSpec rnd pos v cmin cmax p ang = Inr (nv, pos')"
    using randomizeOutSpec_total [of ang p] assms by blast
  with True show ?thesis by (simp add: regenerate_def)
next
  case False
  obtain nv pos' where "randomizeInSpec rnd pos cmin cmax p = Inr (nv, pos')"
    using randomizeInSpec_total [OF assms] by blast
  with False show ?thesis by (simp add: regenerate_def)
qed

lemma replaceMatch_total:
  assumes "0 \<le> p" "p \<le> 100"
  shows "\<exists>res. replaceMatch rnd ang p cmin cmax acc m = Inr res"
proof -
  obtain sts pos modified where acc: "acc = (sts, pos, modified)"
    by (cases acc) auto
  show ?thesis
  proof (cases "if ang then parseAngleToDecimal (JStr m) else parseNumber (JStr m)")
    case None
    then show ?thesis by (simp add: replaceMatch_def acc)
  next
    case (Some v)
    obtain nv sts' pos' where
      g: "regenerate rnd ang p cmin cmax v (sts, pos) = Inr (nv, sts', pos')"
      using regenerate_total [OF assms] by blast
    obtain t where t: "toFixed nv 2 = Inr t"
      using toFixed_total [of 2 nv] by auto
    from Some g t show ?thesis
      by (auto simp: replaceMatch_def acc)
  qed
qed

lemma replaceAll_total:
  assumes "0 \<le> p" "p \<le> 100"
  shows "\<exists>res. replaceAll rnd ang p cmin cmax acc s = Inr res"
  using assms
proof (induction rnd ang p cmin cmax acc s rule: replaceAll.induct)
  case (1 rnd ang p cmin cmax acc)
  show ?case by (subst replaceAll.simps) blast
next
  case (2 rnd ang p cmin cmax acc c cs)
  show ?case
  proof (cases "tokenAt ang (c # cs)")
    case None
    with "2.IH"(1) [OF None "2.prems"] show ?thesis
      by (auto simp: replaceAll.simps)
  next
    case (Some mr)
    obtain m rest where mr: "mr = (m, rest)" by (cases mr) auto
    obtain res where res: "replaceMatch rnd ang p cmin cmax acc m = Inr res"
      using replaceMatch_total [OF "2.prems"] by blast
    obtain t acc' where r2: "res = (t, acc')" by (cases res) auto
    from "2.IH"(2) [OF Some mr [symmetric] res [unfolded r2] refl "2.prems"]
    obtain res' where "replaceAll rnd ang p cmin cmax acc' rest = Inr res'"
      by blast
    with Some mr res r2 show ?thesis
      by (cases res') (simp add: replaceAll.simps)
  qed
qed

lemma caseComplexString_total:
  assumes "0 \<le> p" "p \<le> 100"
  shows "\<exists>res. caseComplexString rnd ang p cmin cmax acc col s = Inr res"
proof -
  obtain r sts pos where acc: "acc = (r, sts, pos)" by (cases acc) auto
  obtain nt sts' pos' md where
    "replaceAll rnd ang p cmin cmax (sts, pos, False) s = Inr (nt, sts', pos', md)"
    using replaceAll_total [OF assms] by (metis prod_cases4)
  then show ?thesis
    by (simp add: caseComplexString_def acc)
qed

text \<open>Case A writes the new value to the cell and counts the cell.\<close>

lemma caseSingleValue_result:
  assumes "0 \<le> p" "p \<le> 100"
  shows "\<exists>newVal sts' pos'.
      caseSingleValue rnd ang p cmin cmax (r, sts, pos) col v
        = Inr (setCell r col
                 (if ang then (getCell r col)\<lparr>cvalue := CellString (formatAngle newVal)\<rparr>
                  else (getCell r col)\<lparr>cvalue := CellNumber newVal, numFmt := Some ''0.00''\<rparr>),
               sts', pos')
      \<and> processedCells sts' = processedCells sts + 1"
proof -
  obtain nv sts1 pos' where
    "regenerate rnd ang p cmin cmax v (sts, pos) = Inr (nv, sts1, pos')"
    "processedCells sts1 = processedCells sts"
    using regenerate_total [OF assms] by blast
  then show ?thesis
    by (auto simp: caseSingleValue_def Let_def)
qed

lemma processCell_total: "\<exists>res. processCell rnd ang cmin cmax acc col = Inr res"
proof -
  obtain r sts pos where acc: "acc = (r, sts, pos)" by (cases acc) auto
  define p :: int where "p = (if ang then 0 else 2)"
  have p: "0 \<le> p" "p \<le> 100" by (simp_all add: p_def)
  have A: "\<exists>res. caseSingleValue rnd ang p cmin cmax (r, sts, pos) col v = Inr res" for v
    using caseSingleValue_result [OF p] by blast
  have B: "\<exists>res. caseComplexString rnd ang p cmin cmax (r, sts, pos) col s = Inr res" for s
    using caseComplexString_total [OF p] by blast
  show ?thesis
    unfolding processCell_def acc Let_def p_def [symmetric]
    using A B by (auto split: option.splits jsval.splits)
qed

lemma forEachE_total:
  assumes "\<And>acc x. \<exists>res. f acc x = Inr res"
  shows "\<exists>res. forEachE f acc xs = Inr res"
proof (induction xs arbitrary: acc)
  case Nil
  show ?case by simp
next
  case (Cons x xs)
  obtain acc' where "f acc x = Inr acc'" using assms by blast
  with Cons [of acc'] show ?case by simp
qed

lemma processRow_total: "\<exists>r' st'. processRow rnd cols st r = Inr (r', st')"
proof -
  define st1 where
    "st1 = latch (st\<lparr>stats := (stats st)\<lparr>totalRows := totalRows (stats st) + 1\<rparr>\<rparr>) r"
  show ?thesis
  proof (cases "currentMax st1")
    case None
    then show ?thesis
      unfolding processRow_def Let_def st1_def [symmetric] by simp
  next
    case mx: (Some cmax)
    show ?thesis
    proof (cases "currentMin st1")
      case None
      with mx show ?thesis
        unfolding processRow_def Let_def st1_def [symmetric] by simp
    next
      case (Some cmin)
      obtain res where "forEachE (processCell rnd (rowIsAngle r) cmin cmax)
          (r, stats st1, nextDraw st1) cols = Inr res"
        using forEachE_total [of "processCell rnd (rowIsAngle r) cmin cmax"] processCell_total
        by blast
      with mx Some show ?thesis
        unfolding processRow_def Let_def st1_def [symmetric] by (cases res) simp
    qed
  qed
qed

lemma eachRow_total: "\<exists>rs' st'. eachRow rnd cols st rs = Inr (rs', st')"
proof (induction rs arbitrary: st)
  case Nil
  show ?case by simp
next
  case (Cons r rs)
  obtain r' st1 where p: "processRow rnd cols st r = Inr (r', st1)"
    using processRow_total by blast
  obtain rsA stA where a: "eachRow rnd cols st1 rs = Inr (rsA, stA)"
    using Cons by blast
  obtain rsB stB where b: "eachRow rnd cols st rs = Inr (rsB, stB)"
    using Cons by blast
  from p a b show ?case by simp
qed



section \<open>The window across the rows of a sheet\<close>

text \<open>The loop over the rows, one row further.\<close>

lemma eachRow_snoc:
  "eachRow rnd cols st (rs @ [r])
   = bindE (eachRow rnd cols st rs)
       (\<lambda>(rs', st').
          if hasValues r then
            bindE (processRow rnd cols st' r) (\<lambda>(r', st''). Inr (rs' @ [r'], st''))
          else Inr (rs' @ [r], st'))"
proof (induction rs arbitrary: st)
  case Nil
  show ?case by (simp add: bindE_def split: sum.splits)
next
  case (Cons a rs)
  show ?case
    by (simp add: Cons bindE_def split: sum.splits prod.splits)
qed

text \<open>A row with both bounds latched: the state it leaves holds the latched window, the
  counters and the draw index of the rewriting of its cells.\<close>

lemma processRow_run:
  assumes "currentMax (latch st r) = Some mx" "currentMin (latch st r) = Some mn"
    and "forEachE (processCell rnd (rowIsAngle r) mn mx)
           (r, (stats st)\<lparr>totalRows := totalRows (stats st) + 1\<rparr>, nextDraw st) cols
         = Inr (r', s', p')"
  shows "processRow rnd cols st r
     = Inr (r', \<lparr>currentMax = Some mx, currentMin = Some mn, stats = s', nextDraw = p'\<rparr>)"
proof -
  have "(latch st r)\<lparr>stats := s', nextDraw := p'\<rparr>
      = \<lparr>currentMax = Some mx, currentMin = Some mn, stats = s', nextDraw = p'\<rparr>"
    using assms(1,2) by (cases "latch st r") simp
  then show ?thesis
    using processRow_resolved [OF assms(1,2), of rnd cols] assms(3) by simp
qed


text \<open>
  Claim C4. Across the visited rows of a sheet each bound is latched on its own. After
  the rows \<open>rs\<close>, a row without values changes nothing; a visited row \<open>r\<close> leaves as upper
  (lower) bound the one it decodes when that is not null and the one latched after \<open>rs\<close>
  otherwise, and its target cells are rewritten under exactly that window. For a sheet of
  three visited rows \<open>R1\<close> with the bounds \<open>[0, 10]\<close>, \<open>R2\<close> with no bound and \<open>R3\<close> with the
  upper bound 15 only, \<^verbatim>\<open>processSheet\<close> rewrites \<open>R1\<close> and \<open>R2\<close> under the window \<open>[0, 10]\<close> and
  \<open>R3\<close> under \<open>[0, 15]\<close>.
\<close>

theorem processSheet_latches_window:
  assumes "hasValues R1" "hasValues R2" "hasValues R3"
    and "rowMax R1 = Some 10" "rowMin R1 = Some 0"
    and "rowMax R2 = None" "rowMin R2 = None"
    and "rowMax R3 = Some 15" "rowMin R3 = None"
  shows "(\<exists>rs' st'.
        eachRow rnd cols st rs = Inr (rs', st')
        \<and> (\<not> hasValues r \<longrightarrow> eachRow rnd cols st (rs @ [r]) = Inr (rs' @ [r], st'))
        \<and> (hasValues r \<longrightarrow>
             (\<exists>r' st''.
                eachRow rnd cols st (rs @ [r]) = Inr (rs' @ [r'], st'')
                \<and> currentMax st'' = (case rowMax r of Some v \<Rightarrow> Some v | None \<Rightarrow> currentMax st')
                \<and> currentMin st'' = (case rowMin r of Some v \<Rightarrow> Some v | None \<Rightarrow> currentMin st')
                \<and> (\<forall>mx mn. currentMax st'' = Some mx \<longrightarrow> currentMin st'' = Some mn \<longrightarrow>
                       forEachE (processCell rnd (rowIsAngle r) mn mx)
                         (r, (stats st')\<lparr>totalRows := totalRows (stats st') + 1\<rparr>, nextDraw st')
                         cols
                       = Inr (r', stats st'', nextDraw st'')))))
     \<and> (\<exists>R1' s1 p1 R2' s2 p2 R3' s3 p3.
          forEachE (processCell rnd (rowIsAngle R1) 0 10)
            (R1, sts\<lparr>totalRows := totalRows sts + 1\<rparr>, pos) (map (\<lambda>c. c + 1) targetCols)
            = Inr (R1', s1, p1)
          \<and> forEachE (processCell rnd (rowIsAngle R2) 0 10)
              (R2, s1\<lparr>totalRows := totalRows s1 + 1\<rparr>, p1) (map (\<lambda>c. c + 1) targetCols)
              = Inr (R2', s2, p2)
          \<and> forEachE (processCell rnd (rowIsAngle R3) 0 15)
              (R3, s2\<lparr>totalRows := totalRows s2 + 1\<rparr>, p2) (map (\<lambda>c. c + 1) targetCols)
              = Inr (R3', s3, p3)
          \<and> processSheet rnd [R1, R2, R3] (sts, pos) targetCols = Inr ([R1', R2', R3'], s3, p3))"
proof
  obtain rs' st' where e: "eachRow rnd cols st rs = Inr (rs', st')"
    using eachRow_total by blast
  have skip: "\<not> hasValues r \<longrightarrow> eachRow rnd cols st (rs @ [r]) = Inr (rs' @ [r], st')"
    by (simp add: eachRow_snoc e)
  have visit: "hasValues r \<longrightarrow>
      (\<exists>r' st''.
         eachRow rnd cols st (rs @ [r]) = Inr (rs' @ [r'], st'')
         \<and> currentMax st'' = (case rowMax r of Some v \<Rightarrow> Some v | None \<Rightarrow> currentMax st')
         \<and> currentMin st'' = (case rowMin r of Some v \<Rightarrow> Some v | None \<Rightarrow> currentMin st')
         \<and> (\<forall>mx mn. currentMax st'' = Some mx \<longrightarrow> currentMin st'' = Some mn \<longrightarrow>
                forEachE (processCell rnd (rowIsAngle r) mn mx)
                  (r, (stats st')\<lparr>totalRows := totalRows (stats st') + 1\<rparr>, nextDraw st') cols
                = Inr (r', stats st'', nextDraw st'')))"
  proof
    assume hv: "hasValues r"
    obtain r' st'' where p: "processRow rnd cols st' r = Inr (r', st'')"
      using processRow_total by blast
    have a: "eachRow rnd cols st (rs @ [r]) = Inr (rs' @ [r'], st'')"
      by (simp add: eachRow_snoc e hv p)
    note w = processRow_window [OF p]
    have b: "currentMax st'' = (case rowMax r of Some v \<Rightarrow> Some v | None \<Rightarrow> currentMax st')"
      and c: "currentMin st'' = (case rowMin r of Some v \<Rightarrow> Some v | None \<Rightarrow> currentMin st')"
      using w by (simp_all add: latch_currentMax latch_currentMin)
    have d: "forEachE (processCell rnd (rowIsAngle r) mn mx)
          (r, (stats st')\<lparr>totalRows := totalRows (stats st') + 1\<rparr>, nextDraw st') cols
        = Inr (r', stats st'', nextDraw st'')"
      if "currentMax st'' = Some mx" "currentMin st'' = Some mn" for mx mn
    proof -
      have l: "currentMax (latch st' r) = Some mx" "currentMin (latch st' r) = Some mn"
        using w that by simp_all
      obtain x s' p' where
        f: "forEachE (processCell rnd (rowIsAngle r) mn mx)
          (r, (stats st')\<lparr>totalRows := totalRows (stats st') + 1\<rparr>, nextDraw st') cols
          = Inr (x, s', p')"
        using forEachE_total [of "processCell rnd (rowIsAngle r) mn mx"] processCell_total
        by (metis prod_cases3)
      from processRow_run [OF l f] p have "x = r'" "stats st'' = s'" "nextDraw st'' = p'"
        by auto
      with f show ?thesis by simp
    qed
    from a b c d show "\<exists>r' st''.
         eachRow rnd cols st (rs @ [r]) = Inr (rs' @ [r'], st'')
         \<and> currentMax st'' = (case rowMax r of Some v \<Rightarrow> Some v | None \<Rightarrow> currentMax st')
         \<and> currentMin st'' = (case rowMin r of Some v \<Rightarrow> Some v | None \<Rightarrow> currentMin st')
         \<and> (\<forall>mx mn. currentMax st'' = Some mx \<longrightarrow> currentMin st'' = Some mn \<longrightarrow>
                forEachE (processCell rnd (rowIsAngle r) mn mx)
                  (r, (stats st')\<lparr>totalRows := totalRows (stats st') + 1\<rparr>, nextDraw st') cols
                = Inr (r', stats st'', nextDraw st''))"
      by blast
  qed
  from e skip visit show "\<exists>rs' st'.
        eachRow rnd cols st rs = Inr (rs', st')
        \<and> (\<not> hasValues r \<longrightarrow> eachRow rnd cols st (rs @ [r]) = Inr (rs' @ [r], st'))
        \<and> (hasValues r \<longrightarrow>
             (\<exists>r' st''.
                eachRow rnd cols st (rs @ [r]) = Inr (rs' @ [r'], st'')
                \<and> currentMax st'' = (case rowMax r of Some v \<Rightarrow> Some v | None \<Rightarrow> currentMax st')
                \<and> currentMin st'' = (case rowMin r of Some v \<Rightarrow> Some v | None \<Rightarrow> currentMin st')
                \<and> (\<forall>mx mn. currentMax st'' = Some mx \<longrightarrow> currentMin st'' = Some mn \<longrightarrow>
                       forEachE (processCell rnd (rowIsAngle r) mn mx)
                         (r, (stats st')\<lparr>totalRows := totalRows (stats st') + 1\<rparr>, nextDraw st')
                         cols
                       = Inr (r', stats st'', nextDraw st''))))"
    by blast
next
  let ?cols = "map (\<lambda>c. c + 1) targetCols"
  let ?st0 = "\<lparr>currentMax = None, currentMin = None, stats = sts, nextDraw = pos\<rparr>"
  have total: "\<exists>x s p. forEachE (processCell rnd ang mn mx) acc ?cols = Inr (x, s, p)"
    for ang mn mx acc
    using forEachE_total [of "processCell rnd ang mn mx"] processCell_total
    by (metis prod_cases3)
  obtain R1' s1 p1 where
    f1: "forEachE (processCell rnd (rowIsAngle R1) 0 10)
           (R1, sts\<lparr>totalRows := totalRows sts + 1\<rparr>, pos) ?cols = Inr (R1', s1, p1)"
    using total by blast
  obtain R2' s2 p2 where
    f2: "forEachE (processCell rnd (rowIsAngle R2) 0 10)
           (R2, s1\<lparr>totalRows := totalRows s1 + 1\<rparr>, p1) ?cols = Inr (R2', s2, p2)"
    using total by blast
  obtain R3' s3 p3 where
    f3: "forEachE (processCell rnd (rowIsAngle R3) 0 15)
           (R3, s2\<lparr>totalRows := totalRows s2 + 1\<rparr>, p2) ?cols = Inr (R3', s3, p3)"
    using total by blast
  let ?st1 = "\<lparr>currentMax = Some 10, currentMin = Some 0, stats = s1, nextDraw = p1\<rparr>"
  let ?st2 = "\<lparr>currentMax = Some 10, currentMin = Some 0, stats = s2, nextDraw = p2\<rparr>"
  let ?st3 = "\<lparr>currentMax = Some 15, currentMin = Some 0, stats = s3, nextDraw = p3\<rparr>"
  have r1: "processRow rnd ?cols ?st0 R1 = Inr (R1', ?st1)"
    using processRow_run [of ?st0 R1 10 0 rnd ?cols R1' s1 p1] f1 assms(4,5)
    by (simp add: latch_currentMax latch_currentMin)
  have r2: "processRow rnd ?cols ?st1 R2 = Inr (R2', ?st2)"
    using processRow_run [of ?st1 R2 10 0 rnd ?cols R2' s2 p2] f2 assms(6,7)
    by (simp add: latch_currentMax latch_currentMin)
  have r3: "processRow rnd ?cols ?st2 R3 = Inr (R3', ?st3)"
    using processRow_run [of ?st2 R3 15 0 rnd ?cols R3' s3 p3] f3 assms(8,9)
    by (simp add: latch_currentMax latch_currentMin)
  have "eachRow rnd ?cols ?st0 [R1, R2, R3] = Inr ([R1', R2', R3'], ?st3)"
    by (simp only: eachRow.simps assms(1-3) if_True r1 r2 r3 sum.case prod.case)
  then have "processSheet rnd [R1, R2, R3] (sts, pos) targetCols = Inr ([R1', R2', R3'], s3, p3)"
    unfolding processSheet_def Let_def prod.case by simp
  with f1 f2 f3 show "\<exists>R1' s1 p1 R2' s2 p2 R3' s3 p3.
          forEachE (processCell rnd (rowIsAngle R1) 0 10)
            (R1, sts\<lparr>totalRows := totalRows sts + 1\<rparr>, pos) (map (\<lambda>c. c + 1) targetCols)
            = Inr (R1', s1, p1)
          \<and> forEachE (processCell rnd (rowIsAngle R2) 0 10)
              (R2, s1\<lparr>totalRows := totalRows s1 + 1\<rparr>, p1) (map (\<lambda>c. c + 1) targetCols)
              = Inr (R2', s2, p2)
          \<and> forEachE (processCell rnd (rowIsAngle R3) 0 15)
              (R3, s2\<lparr>totalRows := totalRows s2 + 1\<rparr>, p2) (map (\<lambda>c. c + 1) targetCols)
              = Inr (R3', s3, p3)
          \<and> processSheet rnd [R1, R2, R3] (sts, pos) targetCols = Inr ([R1', R2', R3'], s3, p3)"
    by blast
qed

section \<open>The entry point\<close>


section \<open>Single numeric tokens\<close>

lemma trim_core:
  assumes "list_all isWhiteSpace ws1" "list_all isWhiteSpace ws2"
    and "core \<noteq> []" "\<not> isWhiteSpace (hd core)" "\<not> isWhiteSpace (last core)"
  shows "trim (ws1 @ core @ ws2) = core"
proof -
  have a: "dropWhile isWhiteSpace (ws1 @ core @ ws2) = core @ ws2"
    using dropWhile_stop [OF assms(1), of "core @ ws2"] assms(3,4) by simp
  have "list_all isWhiteSpace (rev ws2)"
    using assms(2) by (simp add: list_all_iff)
  from dropWhile_stop [OF this, of "rev core"] assms(3,5)
  have b: "dropWhile isWhiteSpace (rev ws2 @ rev core) = rev core"
    by (simp add: hd_rev)
  show ?thesis
    unfolding trim_def a by (simp add: b)
qed

lemma replaceFirst_absent: "a \<notin> set xs \<Longrightarrow> replaceFirst a b xs = xs"
  by (induction xs) auto

lemma replaceFirst_append: "a \<notin> set xs \<Longrightarrow> replaceFirst a b (xs @ ys) = xs @ replaceFirst a b ys"
  by (induction xs) auto

lemma comma_not_white: "list_all isWhiteSpace ws \<Longrightarrow> CHR '','' \<notin> set ws"
  by (auto simp: list_all_iff dest: white_props)

lemma comma_not_digit: "list_all isDigit ds \<Longrightarrow> CHR '','' \<notin> set ds"
  by (auto simp: list_all_iff dest: digit_props)

text \<open>The shape of a single numeric token: a sign, digits, and a fraction, which is a
  decimal separator followed by at least one digit; there is a digit somewhere.\<close>

lemma token_core:
  assumes "sg = [] \<or> sg = [CHR ''-'']" and "list_all isDigit ds"
    and "fpart = [] \<or> (\<exists>sep fd. fpart = sep # fd \<and> isDecimalSeparator sep \<and> fd \<noteq> []
                          \<and> list_all isDigit fd)"
    and "ds \<noteq> [] \<or> fpart \<noteq> []"
  shows "sg @ ds @ fpart \<noteq> []"
    and "\<not> isWhiteSpace (hd (sg @ ds @ fpart))"
    and "\<not> isWhiteSpace (last (sg @ ds @ fpart))"
proof -
  have df: "ds @ fpart \<noteq> []" using assms(4) by simp
  then show "sg @ ds @ fpart \<noteq> []" by simp
  have hd_df: "\<not> isWhiteSpace (hd (ds @ fpart))"
  proof (cases ds)
    case Nil
    with assms(4) have "fpart \<noteq> []" by simp
    with assms(3) obtain sep fd where "fpart = sep # fd" "isDecimalSeparator sep" by blast
    with Nil show ?thesis by (simp add: separator_props)
  next
    case (Cons d ds')
    with assms(2) have "isDigit d" by simp
    with Cons show ?thesis by (simp add: digit_props)
  qed
  show "\<not> isWhiteSpace (hd (sg @ ds @ fpart))"
  proof (cases "sg = []")
    case True
    with hd_df show ?thesis by simp
  next
    case False
    with assms(1) have "sg = [CHR ''-'']" by simp
    then show ?thesis by simp
  qed
  have last_df: "\<not> isWhiteSpace (last (ds @ fpart))"
  proof (cases "fpart = []")
    case True
    with assms(4) have "ds \<noteq> []" by simp
    then have "last ds \<in> set ds" by simp
    with assms(2) have "isDigit (last ds)" by (simp add: list_all_iff)
    with True show ?thesis by (simp add: digit_props)
  next
    case False
    with assms(3) obtain sep fd where f: "fpart = sep # fd" "fd \<noteq> []" "list_all isDigit fd"
      by blast
    then have "last fd \<in> set fd" by simp
    with f(3) have "isDigit (last fd)" by (simp add: list_all_iff)
    with f show ?thesis by (simp add: digit_props)
  qed
  have "last (sg @ ds @ fpart) = last (ds @ fpart)"
    using df by (rule last_appendR)
  with last_df show "\<not> isWhiteSpace (last (sg @ ds @ fpart))" by simp
qed

lemma cleanNumberRegex_token:
  assumes "sg = [] \<or> sg = [CHR ''-'']" and "list_all isDigit ds"
    and "fpart = [] \<or> (\<exists>sep fd. fpart = sep # fd \<and> isDecimalSeparator sep \<and> fd \<noteq> []
                          \<and> list_all isDigit fd)"
  shows "cleanNumberRegex (sg @ ds @ fpart)"
proof -
  have fr: "fpart = [] \<or> \<not> isDigit (hd fpart)"
    using assms(3) by (auto dest: separator_props)
  have hd_df: "ds @ fpart = [] \<or> hd (ds @ fpart) \<noteq> CHR ''-''"
  proof (cases ds)
    case Nil
    with assms(3) show ?thesis by (auto dest: separator_props)
  next
    case (Cons d ds')
    with assms(2) show ?thesis by (auto dest: digit_props)
  qed
  have s1: "(if sg @ ds @ fpart \<noteq> [] \<and> hd (sg @ ds @ fpart) = CHR ''-''
             then tl (sg @ ds @ fpart) else sg @ ds @ fpart) = ds @ fpart"
    using assms(1) hd_df by auto
  have s2: "dropWhile isDigit (ds @ fpart) = fpart"
    using dropWhile_stop [OF assms(2) fr] .
  have s3: "dropWhile isWhiteSpace
      (if fpart \<noteq> [] \<and> isDecimalSeparator (hd fpart) \<and> takeWhile isDigit (tl fpart) \<noteq> []
       then dropWhile isDigit (tl fpart) else fpart) = []"
  proof (cases "fpart = []")
    case True
    then show ?thesis by simp
  next
    case False
    with assms(3) obtain sep fd where f: "fpart = sep # fd" "isDecimalSeparator sep" "fd \<noteq> []"
      "list_all isDigit fd" by blast
    have tw: "takeWhile isDigit (tl fpart) = fd" and dw: "dropWhile isDigit (tl fpart) = []"
      using f(1,4) by (simp_all add: list_all_iff)
    have c: "fpart \<noteq> [] \<and> isDecimalSeparator (hd fpart) \<and> takeWhile isDigit (tl fpart) \<noteq> []"
      unfolding tw using f(1,2,3) by simp
    show ?thesis
      unfolding if_P [OF c] dw by simp
  qed
  show ?thesis
    unfolding cleanNumberRegex_def Let_def s1 s2 using s3 by simp
qed

lemma parseFloat_token:
  assumes "list_all isWhiteSpace ws1" "list_all isWhiteSpace ws2"
    and "sg = [] \<or> sg = [CHR ''-'']" and "list_all isDigit ds"
    and "fpart = [] \<or> (\<exists>fd. fpart = CHR ''.'' # fd \<and> fd \<noteq> [] \<and> list_all isDigit fd)"
    and "ds \<noteq> [] \<or> fpart \<noteq> []"
  shows "\<exists>v. parseFloat (ws1 @ sg @ ds @ fpart @ ws2) = Some v"
proof -
  have r: "ws2 = [] \<or> (\<not> isDigit (hd ws2) \<and> hd ws2 \<noteq> CHR ''.'' \<and> hd ws2 \<noteq> CHR ''e''
      \<and> hd ws2 \<noteq> CHR ''E'')"
    using assms(2) by (cases ws2) (auto dest: white_props)
  have u: "\<exists>v. parseFloat (ds @ fpart @ ws2) = Some v"
  proof (cases "fpart = []")
    case True
    with assms(6) have "ds \<noteq> []" by simp
    from parseFloat_unsigned_int [OF assms(4) this r] True show ?thesis by simp
  next
    case False
    with assms(5) obtain fd where f: "fpart = CHR ''.'' # fd" "fd \<noteq> []" "list_all isDigit fd"
      by blast
    have "ws2 = [] \<or> (\<not> isDigit (hd ws2) \<and> hd ws2 \<noteq> CHR ''e'' \<and> hd ws2 \<noteq> CHR ''E'')"
      using r by auto
    from parseFloat_unsigned_frac [OF assms(4) f(3) this] f show ?thesis by simp
  qed
  have h: "ds @ fpart @ ws2 = [] \<or> (\<not> isWhiteSpace (hd (ds @ fpart @ ws2))
      \<and> hd (ds @ fpart @ ws2) \<noteq> CHR ''-'' \<and> hd (ds @ fpart @ ws2) \<noteq> CHR ''+'')"
  proof (cases ds)
    case Nil
    with assms(5,6) show ?thesis by auto
  next
    case (Cons d ds')
    with assms(4) show ?thesis by (auto dest: digit_props)
  qed
  have "\<exists>v. parseFloat (sg @ ds @ fpart @ ws2) = Some v"
    using assms(3) u parseFloat_minus [OF h] by auto
  then show ?thesis
    using parseFloat_white [OF assms(1), of "sg @ ds @ fpart @ ws2"] by simp
qed

lemma parseNumber_token:
  assumes "list_all isWhiteSpace ws1" "list_all isWhiteSpace ws2"
    and "sg = [] \<or> sg = [CHR ''-'']" and "list_all isDigit ds"
    and "fpart = [] \<or> (\<exists>sep fd. fpart = sep # fd \<and> isDecimalSeparator sep \<and> fd \<noteq> []
                          \<and> list_all isDigit fd)"
    and "ds \<noteq> [] \<or> fpart \<noteq> []"
  shows "\<exists>v. parseNumber (JStr (ws1 @ sg @ ds @ fpart @ ws2)) = Some v"
proof -
  define fpart' where "fpart' = (if fpart = [] then [] else CHR ''.'' # tl fpart)"
  have t: "trim (ws1 @ (sg @ ds @ fpart) @ ws2) = sg @ ds @ fpart"
    using trim_core [OF assms(1,2) token_core [OF assms(3-6)]] .
  have "sg @ ds @ fpart \<noteq> []" using assms(6) by auto
  with t have ne: "trim (ws1 @ sg @ ds @ fpart @ ws2) \<noteq> []" by simp
  have pre: "CHR '','' \<notin> set (ws1 @ sg @ ds)"
    using comma_not_white [OF assms(1)] comma_not_digit [OF assms(4)] assms(3) by auto
  have tail: "replaceFirst (CHR '','') (CHR ''.'') (fpart @ ws2) = fpart' @ ws2"
  proof (cases "fpart = []")
    case True
    then show ?thesis
      using comma_not_white [OF assms(2)] by (simp add: fpart'_def replaceFirst_absent)
  next
    case False
    with assms(5) obtain sep fd where f: "fpart = sep # fd" "isDecimalSeparator sep"
      "list_all isDigit fd" by blast
    have "CHR '','' \<notin> set (fd @ ws2)"
      using comma_not_white [OF assms(2)] comma_not_digit [OF f(3)] by auto
    then have "replaceFirst (CHR '','') (CHR ''.'') (fd @ ws2) = fd @ ws2"
      by (rule replaceFirst_absent)
    with f show ?thesis
      by (auto simp: fpart'_def isDecimalSeparator_def)
  qed
  have "replaceFirst (CHR '','') (CHR ''.'') ((ws1 @ sg @ ds) @ fpart @ ws2)
      = (ws1 @ sg @ ds) @ fpart' @ ws2"
    using replaceFirst_append [OF pre] tail by simp
  then have norm: "replaceFirst (CHR '','') (CHR ''.'') (ws1 @ sg @ ds @ fpart @ ws2)
      = ws1 @ sg @ ds @ fpart' @ ws2"
    by simp
  have f': "fpart' = [] \<or> (\<exists>fd. fpart' = CHR ''.'' # fd \<and> fd \<noteq> [] \<and> list_all isDigit fd)"
    using assms(5) by (auto simp: fpart'_def)
  have ne': "ds \<noteq> [] \<or> fpart' \<noteq> []"
    using assms(6) by (auto simp: fpart'_def)
  from parseFloat_token [OF assms(1,2,3,4) f' ne'] ne norm show ?thesis
    by (simp add: parseNumber_def Let_def)
qed

lemma getCell_in_range:
  "getCellValue (cvalue (getCell r col)) \<noteq> JNull \<Longrightarrow> 1 \<le> col \<and> col \<le> length r"
  by (auto simp: getCell_def emptyCell_def getCellValue_def split: if_splits)

lemma getCell_setCell: "1 \<le> col \<Longrightarrow> col \<le> length r \<Longrightarrow> getCell (setCell r col c) col = c"
  by (simp add: getCell_def setCell_def)

text \<open>
  Claim C8, as amended. In a linear row with a window, a target cell that the rewriter
  reaches (it is not the follower of a merged region, which is skipped beforehand) and
  whose text is a single numeric token (an optional minus sign, digits, an optional
  decimal separator with digits) between optional white space is rewritten by the
  single-value case: the cell then holds a number, its format is \<^verbatim>\<open>0.00\<close>, and
  \<^verbatim>\<open>processedCells\<close> is one more.
\<close>

theorem processCell_numeric_token:
  assumes "\<not> isFollower (getCell r colIndex)"
    and "getCellValue (cvalue (getCell r colIndex)) = JStr (ws1 @ sg @ ds @ fpart @ ws2)"
    and "list_all isWhiteSpace ws1" "list_all isWhiteSpace ws2"
    and "sg = [] \<or> sg = [CHR ''-'']" and "list_all isDigit ds"
    and "fpart = [] \<or> (\<exists>sep fd. fpart = sep # fd \<and> isDecimalSeparator sep \<and> fd \<noteq> []
                          \<and> list_all isDigit fd)"
    and "ds \<noteq> [] \<or> fpart \<noteq> []"
  shows "\<exists>r' newVal sts' pos'.
      processCell rnd False cmin cmax (r, sts, pos) colIndex = Inr (r', sts', pos')
      \<and> r' = setCell r colIndex
               ((getCell r colIndex)\<lparr>cvalue := CellNumber newVal, numFmt := Some ''0.00''\<rparr>)
      \<and> cvalue (getCell r' colIndex) = CellNumber newVal
      \<and> numFmt (getCell r' colIndex) = Some ''0.00''
      \<and> processedCells sts' = processedCells sts + 1"
proof -
  let ?s = "ws1 @ sg @ ds @ fpart @ ws2"
  obtain v where v: "parseNumber (JStr ?s) = Some v"
    using parseNumber_token [OF assms(3-8)] by blast
  have "trim (ws1 @ (sg @ ds @ fpart) @ ws2) = sg @ ds @ fpart"
    using trim_core [OF assms(3,4) token_core [OF assms(5-8)]] .
  then have clean: "cleanNumberRegex (trim ?s)"
    using cleanNumberRegex_token [OF assms(5-7)] by simp
  have ne: "?s \<noteq> []" using assms(8) by auto
  have range: "1 \<le> colIndex" "colIndex \<le> length r"
    using getCell_in_range [of r colIndex] assms(2) by simp_all
  obtain newVal sts' pos' where
    A: "caseSingleValue rnd False 2 cmin cmax (r, sts, pos) colIndex v
        = Inr (setCell r colIndex
                 ((getCell r colIndex)\<lparr>cvalue := CellNumber newVal, numFmt := Some ''0.00''\<rparr>),
               sts', pos')"
    and cnt: "processedCells sts' = processedCells sts + 1"
    using caseSingleValue_result [of 2 rnd False cmin cmax r sts pos colIndex v] by auto
  have "processCell rnd False cmin cmax (r, sts, pos) colIndex
      = caseSingleValue rnd False 2 cmin cmax (r, sts, pos) colIndex v"
    using assms(1,2) v clean ne by (simp add: processCell_def Let_def)
  with A cnt range show ?thesis
    by (simp add: getCell_setCell)
qed

section \<open>Concrete runs\<close>

theorem processSheet_latches_window_witness:
  "processSheet (fixedDraws (1 / 2)) [sheetRow1, sheetRow2, sheetRow3] (zeroStats, 0)
     defaultTargetCols
   = Inr ([sheetRow1[4 := numberCell 5], sheetRow2[4 := numberCell 5],
           sheetRow3[4 := numberCell (15 / 2)]],
          \<lparr>totalRows = 3, processedCells = 3, outOfSpecCount = 0, inSpecCount = 3\<rparr>, 3)"
proof -
  let ?rnd = "fixedDraws (1 / 2)"
  let ?cols = "map (\<lambda>c. c + 1) defaultTargetCols"
  have hv: "hasValues sheetRow1" "hasValues sheetRow2" "hasValues sheetRow3"
    by code_simp+
  have b: "rowMax sheetRow1 = Some 10" "rowMin sheetRow1 = Some 0" "rowMax sheetRow2 = None"
    "rowMin sheetRow2 = None" "rowMax sheetRow3 = Some 15" "rowMin sheetRow3 = None"
    by code_simp+
  note sheet = processSheet_latches_window [OF hv b, where rnd = "fixedDraws (1 / 2)"
      and sts = zeroStats and pos = 0 and targetCols = defaultTargetCols, THEN conjunct2]
  from sheet obtain R1' s1 p1 R2' s2 p2 R3' s3 p3 where
    f1: "forEachE (processCell ?rnd (rowIsAngle sheetRow1) 0 10)
           (sheetRow1, zeroStats\<lparr>totalRows := totalRows zeroStats + 1\<rparr>, 0) ?cols
         = Inr (R1', s1, p1)"
    and f2: "forEachE (processCell ?rnd (rowIsAngle sheetRow2) 0 10)
           (sheetRow2, s1\<lparr>totalRows := totalRows s1 + 1\<rparr>, p1) ?cols = Inr (R2', s2, p2)"
    and f3: "forEachE (processCell ?rnd (rowIsAngle sheetRow3) 0 15)
           (sheetRow3, s2\<lparr>totalRows := totalRows s2 + 1\<rparr>, p2) ?cols = Inr (R3', s3, p3)"
    and sh: "processSheet ?rnd [sheetRow1, sheetRow2, sheetRow3] (zeroStats, 0) defaultTargetCols
         = Inr ([R1', R2', R3'], s3, p3)"
    by blast
  have c1: "forEachE (processCell ?rnd (rowIsAngle sheetRow1) 0 10)
           (sheetRow1, zeroStats\<lparr>totalRows := totalRows zeroStats + 1\<rparr>, 0) ?cols
         = Inr (sheetRow1[4 := numberCell 5],
                \<lparr>totalRows = 1, processedCells = 1, outOfSpecCount = 0, inSpecCount = 1\<rparr>, 1)"
    by code_simp
  from f1 c1 have e1: "R1' = sheetRow1[4 := numberCell 5]"
    "s1 = \<lparr>totalRows = 1, processedCells = 1, outOfSpecCount = 0, inSpecCount = 1\<rparr>" "p1 = 1"
    by simp_all
  have c2: "forEachE (processCell ?rnd (rowIsAngle sheetRow2) 0 10)
           (sheetRow2,
            \<lparr>totalRows = 1, processedCells = 1, outOfSpecCount = 0, inSpecCount = 1\<rparr>
              \<lparr>totalRows := totalRows
                 \<lparr>totalRows = 1, processedCells = 1, outOfSpecCount = 0, inSpecCount = 1\<rparr> + 1\<rparr>,
            1) ?cols
         = Inr (sheetRow2[4 := numberCell 5],
                \<lparr>totalRows = 2, processedCells = 2, outOfSpecCount = 0, inSpecCount = 2\<rparr>, 2)"
    by code_simp
  from f2 c2 have e2: "R2' = sheetRow2[4 := numberCell 5]"
    "s2 = \<lparr>totalRows = 2, processedCells = 2, outOfSpecCount = 0, inSpecCount = 2\<rparr>" "p2 = 2"
    unfolding e1 by simp_all
  have c3: "forEachE (processCell ?rnd (rowIsAngle sheetRow3) 0 15)
           (sheetRow3,
            \<lparr>totalRows = 2, processedCells = 2, outOfSpecCount = 0, inSpecCount = 2\<rparr>
              \<lparr>totalRows := totalRows
                 \<lparr>totalRows = 2, processedCells = 2, outOfSpecCount = 0, inSpecCount = 2\<rparr> + 1\<rparr>,
            2) ?cols
         = Inr (sheetRow3[4 := numberCell (15 / 2)],
                \<lparr>totalRows = 3, processedCells = 3, outOfSpecCount = 0, inSpecCount = 3\<rparr>, 3)"
    by code_simp
  from f3 c3 have e3: "R3' = sheetRow3[4 := numberCell (15 / 2)]"
    "s3 = \<lparr>totalRows = 3, processedCells = 3, outOfSpecCount = 0, inSpecCount = 3\<rparr>" "p3 = 3"
    unfolding e2 by simp_all
  show ?thesis
    unfolding sh e1 e2 e3 ..
qed

theorem processRow_needs_both_bounds_witness:
  "processRow (fixedDraws (1 / 2)) [5, 6, 7] (windowState 0 None None) rowUpperOnly
     = Inr (rowUpperOnly, windowState 1 (Some 10) None)"
proof -
  have l: "latch (windowState 0 None None) rowUpperOnly = windowState 0 (Some 10) None"
    by code_simp
  then have "currentMax (latch (windowState 0 None None) rowUpperOnly) = None
      \<or> currentMin (latch (windowState 0 None None) rowUpperOnly) = None"
    by (simp add: windowState_def)
  then have r: "processRow (fixedDraws (1 / 2)) [5, 6, 7] (windowState 0 None None) rowUpperOnly
      = Inr (rowUpperOnly, (latch (windowState 0 None None) rowUpperOnly)
          \<lparr>stats := (stats (windowState 0 None None))
             \<lparr>totalRows := totalRows (stats (windowState 0 None None)) + 1\<rparr>\<rparr>)"
    by (rule processRow_needs_both_bounds)
  have e: "(windowState 0 (Some 10) None)
      \<lparr>stats := (stats (windowState 0 None None))
         \<lparr>totalRows := totalRows (stats (windowState 0 None None)) + 1\<rparr>\<rparr>
      = windowState 1 (Some 10) None"
    by (simp add: windowState_def zeroStats_def)
  show ?thesis
    by (simp only: r l e)
qed

theorem processCell_blank_witness:
  "processCell (fixedDraws (1 / 2)) True 30 32 ([plainCell (CellString ''  '')], zeroStats, 0) 1
     = Inr ([plainCell (CellString ''  '')], zeroStats, 0)
   \<and> processCell (fixedDraws (1 / 2)) False 0 10 ([plainCell (CellString ''  '')], zeroStats, 0) 1
     = Inr ([plainCell (CellString ''  '')], zeroStats, 0)
   \<and> processCell (fixedDraws (1 / 2)) False 0 10 ([plainCell CellNull], zeroStats, 0) 1
     = Inr ([plainCell CellNull], zeroStats, 0)"
proof -
  have v: "getCellValue (cvalue (getCell [plainCell (CellString ''  '')] 1)) = JStr ''  ''"
    by (simp add: getCell_def plainCell_def getCellValue_def)
  have w: "list_all isWhiteSpace ''  ''"
    by (simp add: isWhiteSpace_def)
  have h: "getCellValue (cvalue (getCell [plainCell (CellString ''  '')] 1)) = JNull
      \<or> (\<exists>s. getCellValue (cvalue (getCell [plainCell (CellString ''  '')] 1)) = JStr s
            \<and> list_all isWhiteSpace s)"
    using v w by blast
  have n: "getCellValue (cvalue (getCell [plainCell CellNull] 1)) = JNull
      \<or> (\<exists>s. getCellValue (cvalue (getCell [plainCell CellNull] 1)) = JStr s
            \<and> list_all isWhiteSpace s)"
    by (simp add: getCell_def plainCell_def getCellValue_def)
  show ?thesis
    using processCell_blank [OF h, of "fixedDraws (1 / 2)" True 30 32 zeroStats 0]
      processCell_blank [OF h, of "fixedDraws (1 / 2)" False 0 10 zeroStats 0]
      processCell_blank [OF n, of "fixedDraws (1 / 2)" False 0 10 zeroStats 0]
    by simp
qed

theorem processCell_numeric_token_witness:
  "\<exists>r' newVal sts' pos'.
     processCell (fixedDraws (1 / 2)) False 10 15
       ([plainCell (CellString '' 16,00 '')], zeroStats, 0) 1 = Inr (r', sts', pos')
     \<and> r' = setCell [plainCell (CellString '' 16,00 '')] 1
              ((getCell [plainCell (CellString '' 16,00 '')] 1)
                 \<lparr>cvalue := CellNumber newVal, numFmt := Some ''0.00''\<rparr>)
     \<and> cvalue (getCell r' 1) = CellNumber newVal
     \<and> numFmt (getCell r' 1) = Some ''0.00''
     \<and> processedCells sts' = processedCells zeroStats + 1"
proof -
  let ?r = "[plainCell (CellString '' 16,00 '')]"
  have h1: "\<not> isFollower (getCell ?r 1)"
    by (simp add: getCell_def plainCell_def)
  have h2: "getCellValue (cvalue (getCell ?r 1)) = JStr ('' '' @ [] @ ''16'' @ '',00'' @ '' '')"
    by (simp add: getCell_def plainCell_def getCellValue_def)
  have h3: "list_all isWhiteSpace '' ''"
    by (simp add: isWhiteSpace_def)
  have h5: "([] :: string) = [] \<or> ([] :: string) = [CHR ''-'']" by simp
  have h6: "list_all isDigit ''16''"
    by (simp add: isDigit_def)
  have h7: "'',00'' = [] \<or> (\<exists>sep fd. '',00'' = sep # fd \<and> isDecimalSeparator sep \<and> fd \<noteq> []
      \<and> list_all isDigit fd)"
    by (simp add: isDecimalSeparator_def isDigit_def)
  have h8: "''16'' \<noteq> [] \<or> '',00'' \<noteq> []" by simp
  show ?thesis
    by (rule processCell_numeric_token [OF h1 h2 h3 h3 h5 h6 h7 h8])
qed

text \<open>The follower of a merged region is skipped before its value is looked at.\<close>

lemma processCell_skips_follower:
  "processCell (fixedDraws (1 / 2)) False 10 15
     ([followerCell (CellString ''12.50'')], zeroStats, 0) 1
   = Inr ([followerCell (CellString ''12.50'')], zeroStats, 0)"
  by (simp add: processCell_def getCell_def followerCell_def)

text \<open>
  Claim C8 as stated, with any sign, fails at a plus sign, which the expression of the
  single-token test does not take: in the window \<open>[10, 15]\<close> the text \<^verbatim>\<open>+12.5\<close> goes through
  the composite case and is written back as the text \<^verbatim>\<open>+12.50\<close>, with no number format.
\<close>

theorem processCell_plus_sign_counterexample:
  "processCell (fixedDraws (1 / 2)) False 10 15 ([plainCell (CellString ''+12.5'')], zeroStats, 0) 1
   = Inr ([plainCell (CellString ''+12.50'')],
          zeroStats\<lparr>processedCells := 1, inSpecCount := 1\<rparr>, 1)"
  by code_simp



end
